theory Spec2Isabelle
  imports Complex_Main
begin

section \<open>Configuration constants of \<open>Sake_game.py\<close>\<close>

definition WIDTH :: int where "WIDTH = 600"
definition HEIGHT :: int where "HEIGHT = 400"
definition GRID :: int where "GRID = 20"
definition FPS_BASE :: int where "FPS_BASE = 12"
definition MAX_FPS :: int where "MAX_FPS = 30"
definition LIVES_START :: int where "LIVES_START = 3"
definition LEVEL_UP_EVERY :: int where "LEVEL_UP_EVERY = 5"
definition POWERUP_CHANCE :: rat where "POWERUP_CHANCE = 8 / 100"
definition POWERUP_DURATION :: int where "POWERUP_DURATION = 4500"
definition POWERUP_TTL :: int where "POWERUP_TTL = 9000"
definition SPECIAL_FOOD_EVERY :: int where "SPECIAL_FOOD_EVERY = 10"
definition SPECIAL_FOOD_TTL :: int where "SPECIAL_FOOD_TTL = 6000"
definition SPECIAL_FOOD_VALUE :: int where "SPECIAL_FOOD_VALUE = 5"

section \<open>Data model\<close>

text \<open>
  A grid position is the two-element Python list \<open>[x, y]\<close>; a direction is the pair
  \<open>(dx, dy)\<close>. Python integers are unbounded, so both are pairs of \<open>int\<close>.
  Floating-point values (\<open>1.4\<close>, \<open>0.6\<close>, \<open>1.5\<close>, the step timer) are read as the exact
  rationals they denote. Clock readings (\<open>pygame.time.get_ticks()\<close>, milliseconds) and the
  results of the \<open>random\<close> module are inputs supplied by the environment.
  Particles, colours and sounds are presentation only and are left out of the state.
\<close>

type_synonym cell = "int \<times> int"

text \<open>\<open>pygame.Rect(x, y, w, h)\<close>.\<close>

record pg_rect =
  rect_x :: int
  rect_y :: int
  rect_w :: int
  rect_h :: int

definition Rect :: "int \<Rightarrow> int \<Rightarrow> int \<Rightarrow> int \<Rightarrow> pg_rect" where
  "Rect x y w h = \<lparr>rect_x = x, rect_y = y, rect_w = w, rect_h = h\<rparr>"

text \<open>
  \<open>Rect.colliderect\<close> of the pygame library: two rectangles collide when they share
  interior area; a rectangle of zero width or height collides with nothing.
\<close>

definition colliderect :: "pg_rect \<Rightarrow> pg_rect \<Rightarrow> bool" where
  "colliderect a b \<longleftrightarrow>
     \<not> (rect_w a = 0 \<or> rect_h a = 0 \<or> rect_w b = 0 \<or> rect_h b = 0) \<and>
     min (rect_x a) (rect_x a + rect_w a) < max (rect_x b) (rect_x b + rect_w b) \<and>
     min (rect_y a) (rect_y a + rect_h a) < max (rect_y b) (rect_y b + rect_h b) \<and>
     max (rect_x a) (rect_x a + rect_w a) > min (rect_x b) (rect_x b + rect_w b) \<and>
     max (rect_y a) (rect_y a + rect_h a) > min (rect_y b) (rect_y b + rect_h b)"

text \<open>The rectangle \<open>pygame.Rect(pos[0], pos[1], GRID, GRID)\<close> of one cell.\<close>

definition cell_rect :: "cell \<Rightarrow> pg_rect" where
  "cell_rect c = Rect (fst c) (snd c) GRID GRID"

text \<open>\<open>POWER_TYPES\<close>, without the colours.\<close>

definition POWER_TYPES :: "string list" where
  "POWER_TYPES = [''speed'', ''slow'', ''bonus'']"

record powerup =
  kind :: string
  pos :: cell
  spawn_time :: int

definition PowerUp :: "string \<Rightarrow> cell \<Rightarrow> int \<Rightarrow> powerup" where
  "PowerUp k p now = \<lparr>kind = k, pos = p, spawn_time = now\<rparr>"

definition powerup_alive :: "int \<Rightarrow> powerup \<Rightarrow> bool" where
  "powerup_alive now p \<longleftrightarrow> now - spawn_time p < POWERUP_TTL"

definition powerup_rect :: "powerup \<Rightarrow> pg_rect" where
  "powerup_rect p = Rect (fst (pos p)) (snd (pos p)) GRID GRID"

record moving_obstacle =
  rect :: pg_rect
  dx :: int

definition moving_update :: "moving_obstacle \<Rightarrow> moving_obstacle" where
  "moving_update m =
     (let r = (rect m)\<lparr>rect_x := rect_x (rect m) + dx m\<rparr>
      in if rect_x r + rect_w r \<ge> WIDTH \<or> rect_x r \<le> 0
         then \<lparr>rect = r, dx = dx m * (- 1)\<rparr>
         else \<lparr>rect = r, dx = dx m\<rparr>)"

record game =
  score :: int
  high :: int
  level :: int
  lives :: int
  snake :: "cell list"
  dir :: "int \<times> int"
  next_dir :: "int \<times> int"
  food :: cell
  special_food :: "cell option"
  special_spawned_at :: int
  powerups :: "powerup list"
  active_power :: "(string \<times> int) option"
  static_obstacles :: "pg_rect list"
  moving_obstacles :: "moving_obstacle list"
  start_time :: int
  last_special_check :: int
  tick_accum :: int
  alive :: bool
  paused :: bool

section \<open>Failures\<close>

text \<open>
  \<open>IndexError\<close>: \<open>self.snake[-1]\<close> or \<open>self.snake.pop(0)\<close> on an empty list.
  \<open>NoReturn\<close>: the rejection loop of \<open>spawn_food\<close> has used up every draw it was given
  without finding an admissible cell (the source would keep drawing).
\<close>

datatype failure = IndexError | NoReturn

definition bind :: "failure + 'a \<Rightarrow> ('a \<Rightarrow> failure + 'b) \<Rightarrow> failure + 'b" where
  "bind m f = (case m of Inl e \<Rightarrow> Inl e | Inr x \<Rightarrow> f x)"

text \<open>\<open>self.snake[-1]\<close>.\<close>

definition snake_head :: "game \<Rightarrow> failure + cell" where
  "snake_head g = (if snake g = [] then Inl IndexError else Inr (last (snake g)))"

section \<open>Spawning\<close>

text \<open>\<open>grid_pos\<close>: the two \<open>random.randrange\<close> results are the draw \<open>(i, j)\<close>.\<close>

definition grid_pos :: "int \<times> int \<Rightarrow> cell" where
  "grid_pos d = (fst d * GRID, snd d * GRID)"

text \<open>
  The acceptance test of one iteration of \<open>spawn_food\<close>. An attribute that does not exist
  yet (\<open>hasattr\<close> false, or the \<open>getattr\<close> default \<open>[]\<close>) contributes no obstacle, which is
  the empty list here.
\<close>

definition spawn_bad :: "pg_rect list \<Rightarrow> moving_obstacle list \<Rightarrow> cell \<Rightarrow> bool" where
  "spawn_bad sobs mobs p \<longleftrightarrow>
     list_ex (\<lambda>ob. colliderect ob (Rect (fst p) (snd p) GRID GRID)) sobs \<or>
     list_ex (\<lambda>m. colliderect (rect m) (Rect (fst p) (snd p) GRID GRID)) mobs"

definition spawn_accepts :: "cell list \<Rightarrow> pg_rect list \<Rightarrow> moving_obstacle list \<Rightarrow> cell \<Rightarrow> bool" where
  "spawn_accepts sn sobs mobs p \<longleftrightarrow>
     p \<notin> set sn \<and> \<not> spawn_bad sobs mobs p \<and> snd p > GRID * 2"

fun spawn_food_in ::
  "cell list \<Rightarrow> pg_rect list \<Rightarrow> moving_obstacle list \<Rightarrow> (int \<times> int) list \<Rightarrow> failure + cell"
where
  "spawn_food_in sn sobs mobs [] = Inl NoReturn"
| "spawn_food_in sn sobs mobs (d # ds) =
     (if spawn_accepts sn sobs mobs (grid_pos d) then Inr (grid_pos d)
      else spawn_food_in sn sobs mobs ds)"

definition spawn_food :: "game \<Rightarrow> (int \<times> int) list \<Rightarrow> failure + cell" where
  "spawn_food g ds = spawn_food_in (snake g) (static_obstacles g) (moving_obstacles g) ds"

definition spawn_special_food :: "(int \<times> int) list \<Rightarrow> int \<Rightarrow> game \<Rightarrow> failure + game" where
  "spawn_special_food ds now g =
     bind (spawn_food g ds)
       (\<lambda>p. Inr (g\<lparr>special_food := Some p, special_spawned_at := now\<rparr>))"

text \<open>
  \<open>maybe_spawn_powerup\<close>: \<open>r\<close> is \<open>random.random()\<close>, \<open>c\<close> the index picked by
  \<open>random.choice(POWER_TYPES)\<close>, \<open>now\<close> the clock read by the \<open>PowerUp\<close> constructor.
\<close>

definition maybe_spawn_powerup ::
  "rat \<Rightarrow> nat \<Rightarrow> (int \<times> int) list \<Rightarrow> int \<Rightarrow> game \<Rightarrow> failure + game"
where
  "maybe_spawn_powerup r c ds now g =
     (if r < POWERUP_CHANCE then
        bind (spawn_food g ds)
          (\<lambda>p. Inr (g\<lparr>powerups :=
                  powerups g @ [PowerUp (POWER_TYPES ! (c mod length POWER_TYPES)) p now]\<rparr>))
      else Inr g)"


section \<open>Power-up effects and speed\<close>

text \<open>\<open>apply_power\<close>; \<open>now\<close> is the clock reading.\<close>

definition apply_power :: "string \<Rightarrow> int \<Rightarrow> game \<Rightarrow> game" where
  "apply_power k now g =
     (let expiry = now + POWERUP_DURATION;
          g1 = (if k = ''bonus'' then g\<lparr>score := score g + 3\<rparr> else g)
      in g1\<lparr>active_power := Some (k, expiry)\<rparr>)"

text \<open>\<open>power_multiplier\<close> returns the multiplier and the game, whose effect it may clear.\<close>

definition power_multiplier :: "int \<Rightarrow> game \<Rightarrow> rat \<times> game" where
  "power_multiplier now g =
     (case active_power g of
        None \<Rightarrow> (1, g)
      | Some (k, expiry) \<Rightarrow>
          if now > expiry then (1, g\<lparr>active_power := None\<rparr>)
          else (if k = ''speed'' then 14 / 10 else (if k = ''slow'' then 6 / 10 else 1), g))"

text \<open>Python's \<open>int(x)\<close> on a float: truncation towards zero.\<close>

definition py_int :: "rat \<Rightarrow> int" where
  "py_int x = (if x \<ge> 0 then \<lfloor>x\<rfloor> else \<lceil>x\<rceil>)"

definition current_fps :: "int \<Rightarrow> game \<Rightarrow> int \<times> game" where
  "current_fps now g =
     (let base = of_int FPS_BASE + of_int (level g - 1) * (15 / 10);
          (m, g') = power_multiplier now g
      in (max 6 (min MAX_FPS (py_int (base * m))), g'))"

definition update_level :: "game \<Rightarrow> game" where
  "update_level g = g\<lparr>level := 1 + score g div LEVEL_UP_EVERY\<rparr>"

section \<open>Input\<close>

datatype key = K_w | K_UP | K_s | K_DOWN | K_a | K_LEFT | K_d | K_RIGHT | K_p | K_other

datatype event = KEYDOWN key | QUIT | OTHER_EVENT

definition handle_input :: "event \<Rightarrow> game \<Rightarrow> game" where
  "handle_input ev g =
     (case ev of
        KEYDOWN k \<Rightarrow>
          if (k = K_w \<or> k = K_UP) \<and> snd (dir g) = 0 then g\<lparr>next_dir := (0, - GRID)\<rparr>
          else if (k = K_s \<or> k = K_DOWN) \<and> snd (dir g) = 0 then g\<lparr>next_dir := (0, GRID)\<rparr>
          else if (k = K_a \<or> k = K_LEFT) \<and> fst (dir g) = 0 then g\<lparr>next_dir := (- GRID, 0)\<rparr>
          else if (k = K_d \<or> k = K_RIGHT) \<and> fst (dir g) = 0 then g\<lparr>next_dir := (GRID, 0)\<rparr>
          else if k = K_p then g\<lparr>paused := \<not> paused g\<rparr>
          else g
      | _ \<Rightarrow> g)"

section \<open>Snake movement, collisions and eating\<close>

definition move_snake :: "game \<Rightarrow> failure + game" where
  "move_snake g =
     (let g1 = g\<lparr>dir := next_dir g\<rparr>
      in bind (snake_head g1)
           (\<lambda>h. Inr (g1\<lparr>snake := snake g1 @ [(fst h + fst (dir g1), snd h + snd (dir g1))]\<rparr>)))"

definition trim_tail :: "bool \<Rightarrow> game \<Rightarrow> failure + game" where
  "trim_tail grew g =
     (if \<not> grew then (if snake g = [] then Inl IndexError else Inr (g\<lparr>snake := tl (snake g)\<rparr>))
      else Inr g)"

definition check_collisions :: "game \<Rightarrow> failure + bool" where
  "check_collisions g =
     bind (snake_head g)
       (\<lambda>h. let rect_head = Rect (fst h) (snd h) GRID GRID
            in Inr (if fst h < 0 \<or> fst h \<ge> WIDTH \<or> snd h < GRID * 2 \<or> snd h \<ge> HEIGHT then True
                    else if h \<in> set (butlast (snake g)) then True
                    else if list_ex (\<lambda>ob. colliderect rect_head ob) (static_obstacles g) then True
                    else if list_ex (\<lambda>m. colliderect rect_head (rect m)) (moving_obstacles g) then True
                    else False))"

text \<open>
  \<open>eat_food\<close>: \<open>ds\<close> are the draws of the respawn, \<open>r\<close>, \<open>c\<close>, \<open>pds\<close>, \<open>now\<close> the inputs of
  \<open>maybe_spawn_powerup\<close>. The result is the returned flag and the game.
\<close>

definition eat_food ::
  "(int \<times> int) list \<Rightarrow> rat \<Rightarrow> nat \<Rightarrow> (int \<times> int) list \<Rightarrow> int \<Rightarrow> game \<Rightarrow> failure + (bool \<times> game)"
where
  "eat_food ds r c pds now g =
     bind (snake_head g)
       (\<lambda>h. let ate = (fst h = fst (food g) \<and> snd h = snd (food g))
            in if ate then
                 (let g1 = update_level (g\<lparr>score := score g + 1\<rparr>)
                  in bind (spawn_food g1 ds)
                       (\<lambda>p. bind (maybe_spawn_powerup r c pds now (g1\<lparr>food := p\<rparr>))
                              (\<lambda>g2. Inr (ate, g2))))
               else Inr (ate, g))"

definition eat_special_food :: "game \<Rightarrow> failure + (bool \<times> game)" where
  "eat_special_food g =
     (case special_food g of
        None \<Rightarrow> Inr (False, g)
      | Some sf \<Rightarrow>
          bind (snake_head g)
            (\<lambda>h. if fst h = fst sf \<and> snd h = snd sf
                 then Inr (True,
                        (update_level (g\<lparr>score := score g + SPECIAL_FOOD_VALUE\<rparr>))
                          \<lparr>special_food := None\<rparr>)
                 else Inr (False, g)))"

text \<open>
  The scan of \<open>pickup_powerup\<close>: the first power-up whose rectangle collides with the
  head, and the list without it.
\<close>

fun first_pickup :: "pg_rect \<Rightarrow> powerup list \<Rightarrow> (powerup \<times> powerup list) option" where
  "first_pickup hr [] = None"
| "first_pickup hr (p # ps) =
     (if colliderect hr (powerup_rect p) then Some (p, ps)
      else (case first_pickup hr ps of None \<Rightarrow> None | Some (q, rest) \<Rightarrow> Some (q, p # rest)))"

definition pickup_powerup :: "int \<Rightarrow> game \<Rightarrow> failure + (bool \<times> game)" where
  "pickup_powerup now g =
     bind (snake_head g)
       (\<lambda>h. case first_pickup (Rect (fst h) (snd h) GRID GRID) (powerups g) of
              None \<Rightarrow> Inr (False, g)
            | Some (p, rest) \<Rightarrow> Inr (True, (apply_power (kind p) now g)\<lparr>powerups := rest\<rparr>))"

section \<open>World update and resets\<close>

text \<open>
  \<open>update\<close>: \<open>now\<close> is the clock read at its start, \<open>r\<close> the \<open>random.random()\<close> of the
  special-food attempt, \<open>ds\<close> and \<open>tsp\<close> the draws and clock of \<open>spawn_special_food\<close>,
  \<open>tal\<close> the clock seen by \<open>PowerUp.alive\<close>.
\<close>

definition update :: "int \<Rightarrow> rat \<Rightarrow> (int \<times> int) list \<Rightarrow> int \<Rightarrow> int \<Rightarrow> game \<Rightarrow> failure + game" where
  "update now r ds tsp tal g =
     (let g1 = g\<lparr>moving_obstacles := map moving_update (moving_obstacles g)\<rparr>
      in bind (if special_food g1 = None \<and> now - last_special_check g1 > SPECIAL_FOOD_EVERY * 1000
               then (let g2 = g1\<lparr>last_special_check := now\<rparr>
                     in if r < 1 / 2 then spawn_special_food ds tsp g2 else Inr g2)
               else Inr g1)
           (\<lambda>g3. let g4 = (if special_food g3 \<noteq> None \<and> now - special_spawned_at g3 > SPECIAL_FOOD_TTL
                            then g3\<lparr>special_food := None\<rparr> else g3)
                 in Inr (g4\<lparr>powerups := filter (powerup_alive tal) (powerups g4)\<rparr>)))"

text \<open>The snake and direction assigned by both \<open>reset_all\<close> and \<open>reset_after_hit\<close>.\<close>

definition spawn_snake :: "cell list" where
  "spawn_snake = [(WIDTH div 2, HEIGHT div 2 + GRID), (WIDTH div 2, HEIGHT div 2)]"

text \<open>
  The inputs of one \<open>Game()\<close>: the draws of the first \<open>spawn_food\<close>, the result of
  \<open>make_obstacles()\<close> (a random layout, taken as given) and the two clock readings.
\<close>

record init_env =
  init_draws :: "(int \<times> int) list"
  init_static :: "pg_rect list"
  init_moving :: "moving_obstacle list"
  init_start_clock :: int
  init_check_clock :: int

text \<open>
  \<open>reset_all\<close> runs on a new object only (\<open>__init__\<close> is its one caller), so when it calls
  \<open>spawn_food\<close> the snake is set and neither obstacle attribute exists yet.
\<close>

definition reset_all :: "init_env \<Rightarrow> failure + game" where
  "reset_all ie =
     bind (spawn_food_in spawn_snake [] [] (init_draws ie))
       (\<lambda>f. Inr \<lparr>score = 0, high = 0, level = 1, lives = LIVES_START,
                 snake = spawn_snake, dir = (0, - GRID), next_dir = (0, - GRID),
                 food = f, special_food = None, special_spawned_at = 0, powerups = [],
                 active_power = None, static_obstacles = init_static ie,
                 moving_obstacles = init_moving ie, start_time = init_start_clock ie,
                 last_special_check = init_check_clock ie, tick_accum = 0,
                 alive = True, paused = False\<rparr>)"

definition Game :: "init_env \<Rightarrow> failure + game" where
  "Game ie = reset_all ie"

definition reset_after_hit :: "game \<Rightarrow> game" where
  "reset_after_hit g =
     (let g1 = g\<lparr>lives := lives g - 1\<rparr>;
          g2 = g1\<lparr>snake := spawn_snake\<rparr>;
          g3 = g2\<lparr>dir := (0, - GRID)\<rparr>;
          g4 = g3\<lparr>next_dir := dir g3\<rparr>
      in g4\<lparr>active_power := None\<rparr>)"

section \<open>One simulation step of \<open>main\<close>\<close>

text \<open>Everything the environment supplies to one pass through the body of the inner loop.\<close>

record step_env =
  food_draws :: "(int \<times> int) list"
  powerup_random :: rat
  powerup_choice :: nat
  powerup_draws :: "(int \<times> int) list"
  powerup_clock :: int
  apply_clock :: int
  update_clock :: int
  special_random :: rat
  special_draws :: "(int \<times> int) list"
  special_clock :: int
  alive_clock :: int

text \<open>
  The first half of the loop body: \<open>move_snake\<close>, \<open>eat_food\<close>, \<open>eat_special_food\<close>,
  \<open>pickup_powerup\<close>. It yields the flag \<open>grew\<close> and the game.
\<close>

definition move_and_eat :: "step_env \<Rightarrow> game \<Rightarrow> failure + (bool \<times> game)" where
  "move_and_eat e g =
     bind (move_snake g)
       (\<lambda>g1. bind (eat_food (food_draws e) (powerup_random e) (powerup_choice e)
                     (powerup_draws e) (powerup_clock e) g1)
         (\<lambda>(a1, g2). bind (eat_special_food g2)
           (\<lambda>(a2, g3). bind (pickup_powerup (apply_clock e) g3)
             (\<lambda>(picked, g4). Inr (a1 \<or> a2, g4)))))"

datatype outcome = Playing game | GameOver game

definition world_update :: "step_env \<Rightarrow> game \<Rightarrow> failure + outcome" where
  "world_update e g =
     bind (update (update_clock e) (special_random e) (special_draws e) (special_clock e)
             (alive_clock e) g)
       (\<lambda>g'. Inr (Playing g'))"

text \<open>
  The second half: \<open>check_collisions\<close>, the life-loss reset, the game-over test that
  records the high score, and otherwise \<open>update\<close>.
\<close>

definition resolve :: "step_env \<Rightarrow> game \<Rightarrow> failure + outcome" where
  "resolve e g =
     bind (check_collisions g)
       (\<lambda>hit. if hit then
                (let g1 = reset_after_hit g
                 in if lives g1 \<le> 0 then Inr (GameOver (g1\<lparr>high := max (high g1) (score g1)\<rparr>))
                    else world_update e g1)
              else world_update e g)"

definition step :: "step_env \<Rightarrow> game \<Rightarrow> failure + outcome" where
  "step e g =
     bind (move_and_eat e g)
       (\<lambda>(grew, g4). bind (trim_tail grew g4) (\<lambda>g5. resolve e g5))"

section \<open>The fixed-step loop of one frame\<close>

text \<open>
  The environment of one frame: the inputs of the \<open>i\<close>-th pass through the loop body, the
  answer of \<open>game_over_screen\<close> there (\<open>True\<close> is restart) and the inputs of the \<open>Game()\<close>
  built on a restart.
\<close>

record frame_env =
  step_envs :: "nat \<Rightarrow> step_env"
  restart :: "nat \<Rightarrow> bool"
  fresh :: "nat \<Rightarrow> init_env"

datatype loop_exit = Rendered | Quit

text \<open>
  \<open>while step_timer >= target_step\<close>: \<open>i\<close> counts the passes started so far and is
  returned with the way the loop ended. A pass that ends in game over either leaves the
  loop (\<open>break\<close>) or replaces the game and sets the timer to 0; \<open>game_over_screen\<close> is
  taken to return. A pass whose step fails is the last one: an \<open>IndexError\<close> leaves
  \<open>main\<close>, and a step that does not return never hands control back to the loop. The
  result \<open>None\<close> is a loop that makes passes without end.
\<close>

partial_function (option) step_loop ::
  "frame_env \<Rightarrow> rat \<Rightarrow> nat \<Rightarrow> rat \<Rightarrow> game \<Rightarrow> (nat \<times> (failure + (loop_exit \<times> rat \<times> game))) option"
where
  "step_loop fe target i timer g =
     (if timer \<ge> target then
        (case step (step_envs fe i) g of
           Inl f \<Rightarrow> Some (i + 1, Inl f)
         | Inr (Playing g') \<Rightarrow> step_loop fe target (i + 1) (timer - target) g'
         | Inr (GameOver g') \<Rightarrow>
             if restart fe i then
               (case Game (fresh fe i) of
                  Inl f \<Rightarrow> Some (i + 1, Inl f)
                | Inr g0 \<Rightarrow> step_loop fe target (i + 1) 0 g0)
             else Some (i + 1, Inr (Quit, timer - target, g')))
      else Some (i, Inr (Rendered, timer, g)))"

text \<open>
  One frame of \<open>main\<close> up to rendering: the timer gains \<open>dt\<close>, the events are handled, a
  paused game skips the loop, otherwise the step duration is \<open>1.0 / current_fps()\<close>.
\<close>

definition frame ::
  "frame_env \<Rightarrow> int \<Rightarrow> rat \<Rightarrow> event list \<Rightarrow> rat \<Rightarrow> game \<Rightarrow> (nat \<times> (failure + (loop_exit \<times> rat \<times> game))) option"
where
  "frame fe now dt evs step_timer g =
     (let timer = step_timer + dt;
          g1 = fold handle_input evs g
      in if paused g1 then Some (0, Inr (Rendered, timer, g1))
         else (let (fps, g2) = current_fps now g1
               in step_loop fe (1 / of_int fps) 0 timer g2))"

section \<open>Auxiliary notions for stating the properties\<close>

text \<open>The game an outcome of a step carries.\<close>

definition outcome_game :: "outcome \<Rightarrow> game" where
  "outcome_game out = (case out of Playing g \<Rightarrow> g | GameOver g \<Rightarrow> g)"

text \<open>
  The step rate as the specification words it:
  \<open>clamp(BASE_RATE + (level-1)*LEVEL_RATE_STEP, MIN_RATE, MAX_RATE) * multiplier\<close>.
\<close>

definition spec_step_rate :: "int \<Rightarrow> rat \<Rightarrow> rat" where
  "spec_step_rate lv m =
     max 6 (min (of_int MAX_FPS) (of_int FPS_BASE + of_int (lv - 1) * (15 / 10))) * m"

text \<open>The cell \<open>move_snake\<close> appends: the head moved by the buffered direction.\<close>

definition new_head :: "game \<Rightarrow> cell" where
  "new_head g = (fst (last (snake g)) + fst (next_dir g), snd (last (snake g)) + snd (next_dir g))"

text \<open>
  The collision verdict as the specification places it: \<open>check_collisions\<close> after the
  new head is appended and before the tail is trimmed.
\<close>

definition collision_before_trim :: "step_env \<Rightarrow> game \<Rightarrow> failure + bool" where
  "collision_before_trim e g = bind (move_and_eat e g) (\<lambda>(grew, g4). check_collisions g4)"

text \<open>
  The collision verdict as \<open>main\<close> computes it: \<open>check_collisions\<close> is called after
  \<open>trim_tail\<close>.
\<close>

definition collision_in_step :: "step_env \<Rightarrow> game \<Rightarrow> failure + bool" where
  "collision_in_step e g =
     bind (move_and_eat e g) (\<lambda>(grew, g4). bind (trim_tail grew g4) check_collisions)"

text \<open>
  The games a session can be in between two operations: a new \<open>Game()\<close>, then any
  interleaving of handled events, simulation steps that do not end the game, and queries
  of the step rate (which may clear an expired effect). A restart after game over is a
  new \<open>Game()\<close> again.
\<close>

inductive reachable :: "game \<Rightarrow> bool" where
  start: "Game ie = Inr g \<Longrightarrow> reachable g"
| input: "reachable g \<Longrightarrow> reachable (handle_input ev g)"
| tick: "reachable g \<Longrightarrow> step e g = Inr (Playing g') \<Longrightarrow> reachable g'"
| query: "reachable g \<Longrightarrow> reachable (snd (current_fps now g))"

text \<open>The exact opposite of a direction, and the axis a direction moves along.\<close>

definition opposite :: "int \<times> int \<Rightarrow> int \<times> int" where
  "opposite d = (- fst d, - snd d)"

datatype axis = Horizontal | Vertical

definition axis_of :: "int \<times> int \<Rightarrow> axis" where
  "axis_of d = (if snd d = 0 then Horizontal else Vertical)"

text \<open>The direction a key asks for, as \<open>handle_input\<close> assigns it.\<close>

definition key_dir :: "key \<Rightarrow> (int \<times> int) option" where
  "key_dir k =
     (if k = K_w \<or> k = K_UP then Some (0, - GRID)
      else if k = K_s \<or> k = K_DOWN then Some (0, GRID)
      else if k = K_a \<or> k = K_LEFT then Some (- GRID, 0)
      else if k = K_d \<or> k = K_RIGHT then Some (GRID, 0)
      else None)"

text \<open>The four unit moves, and the invariant of the direction buffer.\<close>

definition cardinal :: "int \<times> int \<Rightarrow> bool" where
  "cardinal d \<longleftrightarrow> d = (0, - GRID) \<or> d = (0, GRID) \<or> d = (- GRID, 0) \<or> d = (GRID, 0)"

definition game_inv :: "game \<Rightarrow> bool" where
  "game_inv g \<longleftrightarrow>
     cardinal (dir g) \<and> cardinal (next_dir g) \<and> next_dir g \<noteq> opposite (dir g) \<and> snake g \<noteq> []"

text \<open>Two games agree on snake, both directions and lives.\<close>

definition same_body :: "game \<Rightarrow> game \<Rightarrow> bool" where
  "same_body g g' \<longleftrightarrow>
     snake g' = snake g \<and> dir g' = dir g \<and> next_dir g' = next_dir g \<and> lives g' = lives g"

text \<open>
  What can happen to a game between two simulation steps: events are handled and the
  step rate is queried.
\<close>

inductive idle :: "game \<Rightarrow> game \<Rightarrow> bool" where
  same: "idle g g"
| input: "idle g g' \<Longrightarrow> idle g (handle_input ev g')"
| query: "idle g g' \<Longrightarrow> idle g (snd (current_fps now g'))"

text \<open>\<open>n\<close> simulation steps in a row with the same inputs, none of which ends the game.\<close>

fun play :: "step_env \<Rightarrow> nat \<Rightarrow> game \<Rightarrow> game option" where
  "play e 0 g = Some g"
| "play e (Suc n) g = (case step e g of Inr (Playing g') \<Rightarrow> play e n g' | _ \<Rightarrow> None)"

section \<open>Concrete games used in the examples\<close>

text \<open>A new game: the snake at its spawn cells, one static and one moving obstacle.\<close>

definition game0 :: game where
  "game0 = \<lparr>score = 0, high = 0, level = 1, lives = 3,
     snake = [(300, 220), (300, 200)], dir = (0, - 20), next_dir = (0, - 20),
     food = (300, 180), special_food = None, special_spawned_at = 0, powerups = [],
     active_power = None, static_obstacles = [Rect 40 100 40 20],
     moving_obstacles = [\<lparr>rect = Rect 20 300 40 20, dx = 2\<rparr>], start_time = 0,
     last_special_check = 0, tick_accum = 0, alive = True, paused = False\<rparr>"

text \<open>The inputs of a \<open>Game()\<close> that yields \<open>game0\<close>: the first draw falls in the top band.\<close>

definition init0 :: init_env where
  "init0 = \<lparr>init_draws = [(3, 1), (15, 9)], init_static = [Rect 40 100 40 20],
     init_moving = [\<lparr>rect = Rect 20 300 40 20, dx = 2\<rparr>], init_start_clock = 0,
     init_check_clock = 0\<rparr>"

text \<open>Inputs of one step: no power-up is rolled, no special food is attempted.\<close>

definition env0 :: step_env where
  "env0 = \<lparr>food_draws = [(15, 9), (5, 5)], powerup_random = 1 / 2, powerup_choice = 2,
     powerup_draws = [(7, 7)], powerup_clock = 1000, apply_clock = 1000, update_clock = 1000,
     special_random = 3 / 4, special_draws = [(9, 9)], special_clock = 1000, alive_clock = 1000\<rparr>"

text \<open>
  Level 13 (score 60), one life lost, and a Speed effect, picked up in the first step
  after the reset, running until 5500 ms.
\<close>

definition game_fast :: game where
  "game_fast = game0\<lparr>score := 60, level := 13, lives := 2,
     snake := [(300, 200), (300, 180)], food := (100, 100),
     active_power := Some (''speed'', 5500)\<rparr>"

text \<open>
  Two points scored, then a life lost (so the snake is back at its spawn cells), and a
  Bonus power-up in the cell the head enters next.
\<close>

definition game_bonus :: game where
  "game_bonus = game0\<lparr>score := 2, lives := 2, food := (100, 100),
     powerups := [PowerUp ''bonus'' (300, 180) 500]\<rparr>"

text \<open>The game after \<open>move_snake\<close> has put the head on the food.\<close>

definition game_eating :: game where
  "game_eating = game0\<lparr>snake := [(300, 220), (300, 200), (300, 180)]\<rparr>"

text \<open>
  Inputs of a \<open>Game()\<close> as \<open>make_obstacles\<close> can produce them (six static obstacles off
  the centre band, two moving strips) whose only food draw is the corner cell of the
  first static obstacle.
\<close>

definition init_covered :: init_env where
  "init_covered = \<lparr>init_draws = [(5, 5)],
     init_static = [Rect 100 100 40 20, Rect 440 80 60 40, Rect 60 300 40 20,
       Rect 500 240 60 20, Rect 160 200 40 40, Rect 400 340 40 20],
     init_moving = [\<lparr>rect = Rect 20 140 40 20, dx = 2\<rparr>, \<lparr>rect = Rect 20 280 60 20, dx = 3\<rparr>],
     init_start_clock = 0, init_check_clock = 0\<rparr>"

text \<open>
  A snake of four segments around a square, about to turn up into the cell its tail
  leaves in the same step.
\<close>

definition game_square :: game where
  "game_square = game0\<lparr>score := 2, snake := [(100, 100), (120, 100), (120, 120), (100, 120)],
     dir := (- 20, 0), next_dir := (0, - 20)\<rparr>"

text \<open>A snake of three segments moving up, its head in the topmost playable row.\<close>

definition game_wall :: game where
  "game_wall = game0\<lparr>score := 1, snake := [(300, 80), (300, 60), (300, 40)]\<rparr>"

text \<open>The same position with seven points and the last life.\<close>

definition game_last :: game where
  "game_last = game0\<lparr>score := 7, level := 2, lives := 1,
     snake := [(300, 80), (300, 60), (300, 40)]\<rparr>"

text \<open>A frame whose player restarts after game over.\<close>

definition frame0 :: frame_env where
  "frame0 = \<lparr>step_envs = (\<lambda>i. env0), restart = (\<lambda>i. True), fresh = (\<lambda>i. init0)\<rparr>"

text \<open>The new game after the key Left has been handled.\<close>

definition game_left :: game where
  "game_left = handle_input (KEYDOWN K_LEFT) game0"

text \<open>
  The game after Left, one step, and Down: the snake moves left and Down is buffered.
\<close>

definition game_turned :: game where
  "game_turned = game0\<lparr>snake := [(300, 200), (280, 200)], dir := (- 20, 0), next_dir := (0, 20),
     moving_obstacles := [\<lparr>rect = Rect 22 300 40 20, dx = 2\<rparr>]\<rparr>"

text \<open>Nine steps later: the snake moves down and its head is in the bottom row.\<close>

definition game_down :: game where
  "game_down = game0\<lparr>snake := [(280, 360), (280, 380)], dir := (0, 20), next_dir := (0, 20),
     moving_obstacles := [\<lparr>rect = Rect 40 300 40 20, dx = 2\<rparr>]\<rparr>"

text \<open>The game after the next step, which ran into the bottom wall and cost a life.\<close>

definition game_hit :: game where
  "game_hit = game0\<lparr>lives := 2, moving_obstacles := [\<lparr>rect = Rect 42 300 40 20, dx = 2\<rparr>]\<rparr>"

section \<open>Basic facts\<close>

lemmas config_defs =
  WIDTH_def HEIGHT_def GRID_def FPS_BASE_def MAX_FPS_def LIVES_START_def LEVEL_UP_EVERY_def
  POWERUP_CHANCE_def POWERUP_DURATION_def POWERUP_TTL_def SPECIAL_FOOD_EVERY_def
  SPECIAL_FOOD_TTL_def SPECIAL_FOOD_VALUE_def

lemmas step_defs =
  step_def move_and_eat_def move_snake_def snake_head_def eat_food_def eat_special_food_def
  pickup_powerup_def trim_tail_def resolve_def check_collisions_def world_update_def update_def
  update_level_def spawn_food_def spawn_accepts_def spawn_bad_def grid_pos_def
  maybe_spawn_powerup_def colliderect_def Rect_def moving_update_def apply_power_def
  PowerUp_def powerup_rect_def powerup_alive_def reset_after_hit_def spawn_snake_def

lemma bind_Inl [simp]: "bind (Inl e) f = Inl e"
  by (simp add: bind_def)

lemma bind_Inr [simp]: "bind (Inr x) f = f x"
  by (simp add: bind_def)

lemma bind_eq_Inr: "bind m f = Inr y \<longleftrightarrow> (\<exists>x. m = Inr x \<and> f x = Inr y)"
  by (cases m) simp_all

section \<open>Level and score\<close>

text \<open>Both eating operations recompute the level from the new score.\<close>

lemma maybe_spawn_powerup_frame:
  assumes "maybe_spawn_powerup r c pds now g = Inr g'"
  shows "score g' = score g \<and> level g' = level g \<and> snake g' = snake g \<and> dir g' = dir g \<and>
    next_dir g' = next_dir g \<and> food g' = food g \<and> static_obstacles g' = static_obstacles g \<and>
    moving_obstacles g' = moving_obstacles g \<and> lives g' = lives g \<and> high g' = high g"
proof (cases "r < POWERUP_CHANCE")
  case True
  with assms obtain p where
    "g' = g\<lparr>powerups := powerups g @ [PowerUp (POWER_TYPES ! (c mod length POWER_TYPES)) p now]\<rparr>"
    by (auto simp: maybe_spawn_powerup_def bind_eq_Inr)
  then show ?thesis by simp
next
  case False
  with assms show ?thesis by (simp add: maybe_spawn_powerup_def)
qed

lemma eat_food_True:
  assumes "eat_food ds r c pds now g = Inr (True, g')"
  shows "\<exists>p. spawn_food (update_level (g\<lparr>score := score g + 1\<rparr>)) ds = Inr p \<and>
    maybe_spawn_powerup r c pds now ((update_level (g\<lparr>score := score g + 1\<rparr>))\<lparr>food := p\<rparr>) =
      Inr g'"
proof -
  from assms obtain h where h: "snake_head g = Inr h"
    and rest: "(let ate = (fst h = fst (food g) \<and> snd h = snd (food g))
            in if ate then
                 (let g1 = update_level (g\<lparr>score := score g + 1\<rparr>)
                  in bind (spawn_food g1 ds)
                       (\<lambda>p. bind (maybe_spawn_powerup r c pds now (g1\<lparr>food := p\<rparr>))
                              (\<lambda>g2. Inr (ate, g2))))
               else Inr (ate, g)) = Inr (True, g')"
    unfolding eat_food_def bind_eq_Inr by blast
  show ?thesis
  proof (cases "fst h = fst (food g) \<and> snd h = snd (food g)")
    case True
    with rest show ?thesis
      by (simp add: Let_def bind_eq_Inr)
  next
    case False
    with rest show ?thesis by (simp add: Let_def)
  qed
qed

lemma eat_food_level:
  assumes "eat_food ds r c pds now g = Inr (True, g')"
  shows "score g' = score g + 1 \<and> level g' = 1 + score g' div LEVEL_UP_EVERY"
proof -
  from eat_food_True [OF assms] obtain p where
    m: "maybe_spawn_powerup r c pds now ((update_level (g\<lparr>score := score g + 1\<rparr>))\<lparr>food := p\<rparr>) =
      Inr g'"
    by blast
  from maybe_spawn_powerup_frame [OF m] show ?thesis
    by (simp add: update_level_def)
qed

lemma eat_special_food_level:
  assumes "eat_special_food g = Inr (True, g')"
  shows "score g' = score g + SPECIAL_FOOD_VALUE \<and> level g' = 1 + score g' div LEVEL_UP_EVERY"
  using assms
  by (auto simp: eat_special_food_def update_level_def bind_eq_Inr split: option.splits if_splits)

text \<open>\<open>apply_power\<close> adds the bonus to the score and leaves the level as it was.\<close>

lemma apply_power_bonus:
  "score (apply_power ''bonus'' now g) = score g + 3 \<and> level (apply_power ''bonus'' now g) = level g"
  by (simp add: apply_power_def)

text \<open>
  Claim C1. After every operation that changes the score (eating food, eating special
  food, applying a Bonus power-up) the level equals \<open>1 + score // LEVEL_UP_EVERY\<close>.
  The two eating operations do this (\<open>eat_food_level\<close>, \<open>eat_special_food_level\<close>);
  \<open>apply_power\<close> does not call \<open>update_level\<close>. In the game \<open>game_bonus\<close> (score 2, level 1,
  so the relation holds before the step) the head moves onto a Bonus power-up: after the
  step the score is 5 and the level is still 1, where the relation asks for level 2.
\<close>

theorem bonus_level_stale:
  "level game_bonus = 1 + score game_bonus div LEVEL_UP_EVERY \<and>
   map_sum id (\<lambda>out. (score (outcome_game out), level (outcome_game out)))
     (step env0 game_bonus) = Inr (5, 1) \<and>
   1 + (5::int) div LEVEL_UP_EVERY = 2"
  by (simp add: step_defs game_bonus_def game0_def env0_def outcome_game_def config_defs)

section \<open>The speed multiplier\<close>

text \<open>
  Claim C6. \<open>power_multiplier\<close> returns 1 when no effect is set; when the clock has
  passed the expiry (\<open>now > expiry\<close>) it returns 1 and clears the effect, and a second
  query at any later time returns 1 again and finds no effect; while the effect runs it
  returns 1.4 for speed, 0.6 for slow and 1 for bonus and leaves the game unchanged.
\<close>

theorem power_multiplier_query:
  "(active_power g = None \<longrightarrow> power_multiplier now g = (1, g)) \<and>
   (active_power g = Some (k, expiry) \<and> now > expiry \<longrightarrow>
      power_multiplier now g = (1, g\<lparr>active_power := None\<rparr>) \<and>
      active_power (snd (power_multiplier now g)) = None \<and>
      power_multiplier now' (snd (power_multiplier now g)) = (1, snd (power_multiplier now g))) \<and>
   (active_power g = Some (k, expiry) \<and> \<not> now > expiry \<longrightarrow>
      snd (power_multiplier now g) = g \<and>
      (k = ''speed'' \<longrightarrow> fst (power_multiplier now g) = 14 / 10) \<and>
      (k = ''slow'' \<longrightarrow> fst (power_multiplier now g) = 6 / 10) \<and>
      (k = ''bonus'' \<longrightarrow> fst (power_multiplier now g) = 1))"
  by (simp add: power_multiplier_def)

text \<open>
  The scenario of the specification: an effect applied at 1000 ms lasts until 5500 ms;
  one millisecond before, the multiplier of Speed is 1.4, one millisecond after it is 1
  and the effect is gone.
\<close>

theorem power_multiplier_query_witness:
  "power_multiplier 7 game0 = (1, game0) \<and>
   power_multiplier 5499 (apply_power ''speed'' 1000 game0) =
     (14 / 10, apply_power ''speed'' 1000 game0) \<and>
   power_multiplier 5501 (apply_power ''speed'' 1000 game0) = (1, game0) \<and>
   power_multiplier 5502 (snd (power_multiplier 5501 (apply_power ''speed'' 1000 game0))) =
     (1, game0) \<and>
   fst (power_multiplier 5500 (apply_power ''slow'' 1000 game0)) = 6 / 10 \<and>
   fst (power_multiplier 5500 (apply_power ''bonus'' 1000 game0)) = 1"
proof -
  have none: "active_power game0 = None"
    by (simp add: game0_def)
  have act: "active_power (apply_power k 1000 game0) = Some (k, 5500)" for k
    by (simp add: apply_power_def POWERUP_DURATION_def)
  have clr: "(apply_power ''speed'' 1000 game0)\<lparr>active_power := None\<rparr> = game0"
    by (simp add: apply_power_def game0_def)
  have 1: "power_multiplier 7 game0 = (1, game0)"
    using power_multiplier_query [of game0 7 "''speed''" 0 0] none by simp
  have 2: "power_multiplier 5499 (apply_power ''speed'' 1000 game0) =
      (14 / 10, apply_power ''speed'' 1000 game0)"
    using power_multiplier_query [of "apply_power ''speed'' 1000 game0" 5499 "''speed''" 5500 0] act
    by (simp add: prod_eq_iff)
  have 3: "power_multiplier 5501 (apply_power ''speed'' 1000 game0) = (1, game0) \<and>
      power_multiplier 5502 (snd (power_multiplier 5501 (apply_power ''speed'' 1000 game0))) =
        (1, game0)"
  proof -
    have lt: "(5500::int) < 5501"
      by simp
    have "power_multiplier 5501 (apply_power ''speed'' 1000 game0) =
        (1, (apply_power ''speed'' 1000 game0)\<lparr>active_power := None\<rparr>) \<and>
      power_multiplier 5502 (snd (power_multiplier 5501 (apply_power ''speed'' 1000 game0))) =
        (1, snd (power_multiplier 5501 (apply_power ''speed'' 1000 game0)))"
      using power_multiplier_query [of "apply_power ''speed'' 1000 game0" 5501 "''speed''" 5500 5502]
        act [of "''speed''"] lt
      by blast
    then show ?thesis
      unfolding clr by (metis snd_conv)
  qed
  have 4: "fst (power_multiplier 5500 (apply_power ''slow'' 1000 game0)) = 6 / 10"
    using power_multiplier_query [of "apply_power ''slow'' 1000 game0" 5500 "''slow''" 5500 0] act
    by simp
  have 5: "fst (power_multiplier 5500 (apply_power ''bonus'' 1000 game0)) = 1"
    using power_multiplier_query [of "apply_power ''bonus'' 1000 game0" 5500 "''bonus''" 5500 0] act
    by simp
  from 1 2 3 4 5 show ?thesis by blast
qed

section \<open>The step rate\<close>

lemma current_fps_bounds: "6 \<le> fst (current_fps now g) \<and> fst (current_fps now g) \<le> MAX_FPS"
  by (simp add: current_fps_def MAX_FPS_def split: prod.splits)

text \<open>
  Claim C3, as stated: the rate is the clamped base rate times the multiplier. At level
  13 with Speed active the base rate is 30, the specification's formula gives 42, and
  \<open>current_fps\<close> returns 30.
\<close>

theorem current_fps_counterexample:
  "of_int (fst (current_fps 1000 game_fast)) \<noteq>
     spec_step_rate (level game_fast) (fst (power_multiplier 1000 game_fast))"
  by (simp add: current_fps_def power_multiplier_def spec_step_rate_def game_fast_def game0_def
      py_int_def config_defs)

text \<open>
  Claim C3, amended: the multiplier is applied to the unclamped base rate
  \<open>FPS_BASE + (level - 1) * 1.5\<close>, the product is truncated to an integer, and the
  result is clamped to the range from 6 to \<open>MAX_FPS\<close>; the query of the multiplier is
  the one of \<open>power_multiplier\<close>, with its clearing of an expired effect.
\<close>

theorem current_fps_amended:
  "fst (current_fps now g) =
     max 6 (min MAX_FPS
       (py_int ((of_int FPS_BASE + of_int (level g - 1) * (15 / 10)) *
                fst (power_multiplier now g)))) \<and>
   snd (current_fps now g) = snd (power_multiplier now g)"
  by (simp add: current_fps_def split: prod.splits)

section \<open>Life loss\<close>

lemma reset_all_spawn:
  assumes "reset_all ie = Inr g"
  shows "snake g = spawn_snake \<and> dir g = (0, - GRID) \<and> next_dir g = (0, - GRID)"
  using assms by (auto simp: reset_all_def bind_eq_Inr)

text \<open>On a collision the step runs \<open>reset_after_hit\<close> before anything else.\<close>

lemma resolve_collision:
  assumes "check_collisions g = Inr True"
  shows "resolve e g =
     (if lives g \<le> 1
      then Inr (GameOver ((reset_after_hit g)\<lparr>high := max (high g) (score g)\<rparr>))
      else world_update e (reset_after_hit g))"
  using assms by (simp add: resolve_def reset_after_hit_def Let_def)

text \<open>
  Claim C8. The life-loss reset \<open>reset_after_hit\<close> takes one life, puts the snake and
  both directions back to the spawn configuration (the one \<open>reset_all\<close> assigns),
  clears the active effect, and leaves score, level, static and moving obstacles, food,
  special food and the power-ups as they were. This holds for any number of lives.
\<close>

theorem reset_after_hit_frame:
  "lives (reset_after_hit g) = lives g - 1 \<and>
   snake (reset_after_hit g) = spawn_snake \<and>
   dir (reset_after_hit g) = (0, - GRID) \<and>
   next_dir (reset_after_hit g) = (0, - GRID) \<and>
   active_power (reset_after_hit g) = None \<and>
   score (reset_after_hit g) = score g \<and>
   level (reset_after_hit g) = level g \<and>
   static_obstacles (reset_after_hit g) = static_obstacles g \<and>
   moving_obstacles (reset_after_hit g) = moving_obstacles g \<and>
   food (reset_after_hit g) = food g \<and>
   special_food (reset_after_hit g) = special_food g \<and>
   powerups (reset_after_hit g) = powerups g"
  by (simp add: reset_after_hit_def Let_def)

section \<open>The fixed-step loop\<close>

lemma step_loop_exit:
  assumes "\<not> target \<le> timer"
  shows "step_loop fe target i timer g = Some (i, Inr (Rendered, timer, g))"
  using assms by (subst step_loop.simps) simp

lemma floor_quotient_pred:
  fixes timer target :: rat
  assumes "0 < target" and "target \<le> timer"
  shows "0 < nat \<lfloor>timer / target\<rfloor> \<and>
    nat \<lfloor>(timer - target) / target\<rfloor> = nat \<lfloor>timer / target\<rfloor> - 1"
proof -
  define q where "q = \<lfloor>timer / target\<rfloor>"
  from assms have "1 \<le> timer / target"
    by (simp add: le_divide_eq_1_pos)
  then have a: "1 \<le> q"
    by (simp add: q_def le_floor_iff)
  from assms have "(timer - target) / target = timer / target - 1"
    by (simp add: diff_divide_distrib)
  then have b: "\<lfloor>(timer - target) / target\<rfloor> = q - 1"
    by (simp add: q_def)
  from a have "0 < nat q \<and> nat (q - 1) = nat q - 1"
    by arith
  then show ?thesis
    unfolding b unfolding q_def .
qed

lemma step_loop_bounded:
  assumes pos: "0 < target"
  shows "nat \<lfloor>timer / target\<rfloor> \<le> k \<Longrightarrow>
    \<exists>n r. step_loop fe target i timer g = Some (n, r) \<and> n \<le> i + nat \<lfloor>timer / target\<rfloor>"
proof (induction k arbitrary: i timer g)
  case 0
  have "\<not> target \<le> timer"
  proof
    assume "target \<le> timer"
    from floor_quotient_pred [OF pos this] 0 show False by linarith
  qed
  from step_loop_exit [OF this] show ?case by simp
next
  case (Suc k)
  show ?case
  proof (cases "target \<le> timer")
    case False
    from step_loop_exit [OF this] show ?thesis by simp
  next
    case True
    note fl = floor_quotient_pred [OF pos True]
    have one: "i + 1 \<le> i + nat \<lfloor>timer / target\<rfloor>"
      using fl by linarith
    have sub: "nat \<lfloor>(timer - target) / target\<rfloor> \<le> k"
      using fl Suc.prems by linarith
    have zero: "nat \<lfloor>0 / target\<rfloor> \<le> k"
      by simp
    show ?thesis
    proof (cases "step (step_envs fe i) g")
      case (Inl f)
      with True have "step_loop fe target i timer g = Some (i + 1, Inl f)"
        by (subst step_loop.simps) simp
      with one show ?thesis by blast
    next
      case (Inr out)
      show ?thesis
      proof (cases out)
        case (Playing g')
        with Inr True have eq: "step_loop fe target i timer g =
            step_loop fe target (i + 1) (timer - target) g'"
          by (subst step_loop.simps) simp
        from Suc.IH [OF sub, of "i + 1" g'] obtain n r where
          r: "step_loop fe target (i + 1) (timer - target) g' = Some (n, r)"
          and n: "n \<le> i + 1 + nat \<lfloor>(timer - target) / target\<rfloor>"
          by blast
        from n fl have "n \<le> i + nat \<lfloor>timer / target\<rfloor>"
          by linarith
        with eq r show ?thesis by simp
      next
        case (GameOver g')
        show ?thesis
        proof (cases "restart fe i")
          case False
          with GameOver Inr True have
            "step_loop fe target i timer g = Some (i + 1, Inr (Quit, timer - target, g'))"
            by (subst step_loop.simps) simp
          with one show ?thesis by blast
        next
          case rs: True
          show ?thesis
          proof (cases "Game (fresh fe i)")
            case (Inl f)
            with rs GameOver Inr True have
              "step_loop fe target i timer g = Some (i + 1, Inl f)"
              by (subst step_loop.simps) simp
            with one show ?thesis by blast
          next
            case new: (Inr g0)
            with rs GameOver Inr True have eq: "step_loop fe target i timer g =
                step_loop fe target (i + 1) 0 g0"
              by (subst step_loop.simps) simp
            from Suc.IH [OF zero, of "i + 1" g0] obtain n r where
              r: "step_loop fe target (i + 1) 0 g0 = Some (n, r)"
              and n: "n \<le> i + 1 + nat \<lfloor>0 / target\<rfloor>"
              by blast
            from n one have "n \<le> i + nat \<lfloor>timer / target\<rfloor>"
              by simp
            with eq r show ?thesis by simp
          qed
        qed
      qed
    qed
  qed
qed

lemma step_loop_fps_bounded:
  fixes fps :: int
  assumes "6 \<le> fps" and "fps \<le> 30"
  shows "\<exists>n r. step_loop fe (1 / of_int fps) i timer g = Some (n, r) \<and> n \<le> i + nat \<lfloor>timer * 30\<rfloor>"
proof -
  from assms have pos: "(0::rat) < 1 / of_int fps"
    by simp
  have "\<exists>n r. step_loop fe (1 / of_int fps) i timer g = Some (n, r) \<and>
      n \<le> i + nat \<lfloor>timer / (1 / of_int fps)\<rfloor>"
    by (rule step_loop_bounded [OF pos order_refl])
  then obtain n r where
    s: "step_loop fe (1 / of_int fps) i timer g = Some (n, r)"
    and n: "n \<le> i + nat \<lfloor>timer / (1 / of_int fps)\<rfloor>"
    by blast
  have "\<lfloor>timer * of_int fps\<rfloor> \<le> \<lfloor>timer * 30\<rfloor> \<or> \<lfloor>timer * of_int fps\<rfloor> \<le> 0"
  proof (cases "0 \<le> timer")
    case True
    from assms have "(of_int fps :: rat) \<le> 30"
      by (metis of_int_le_iff of_int_numeral)
    from this True have "timer * of_int fps \<le> timer * 30"
      by (rule mult_left_mono)
    then show ?thesis by (simp add: floor_mono)
  next
    case False
    with assms have "timer * of_int fps \<le> 0"
      by (simp add: mult_le_0_iff)
    then have "\<lfloor>timer * of_int fps\<rfloor> \<le> 0"
      by (simp add: floor_le_zero)
    then show ?thesis by simp
  qed
  then have "nat \<lfloor>timer * of_int fps\<rfloor> \<le> nat \<lfloor>timer * 30\<rfloor>"
    by auto
  with n have "n \<le> i + nat \<lfloor>timer * 30\<rfloor>"
    by simp
  with s show ?thesis by blast
qed

text \<open>
  Claim C10. \<open>current_fps\<close> returns an integer from 6 to \<open>MAX_FPS\<close> = 30 for every
  game, so the step duration \<open>1.0 / current_fps()\<close> divides by a positive number and is
  at least 1/30 of a second. With that duration the inner loop of a frame ends: it
  makes at most \<open>timer * 30\<close> passes (one pass is one simulation step), whatever the
  steps do, and so does the whole frame. Whether a single step returns is a matter of
  \<open>spawn_food\<close>, not of the number of passes.
\<close>

theorem step_duration_bounded:
  "6 \<le> fst (current_fps now g) \<and> fst (current_fps now g) \<le> 30 \<and>
   (0::rat) < 1 / of_int (fst (current_fps now g)) \<and>
   (1::rat) / 30 \<le> 1 / of_int (fst (current_fps now g)) \<and>
   (\<exists>n r. step_loop fe (1 / of_int (fst (current_fps now g))) 0 timer (snd (current_fps now g)) =
      Some (n, r) \<and> n \<le> nat \<lfloor>timer * 30\<rfloor>) \<and>
   (\<exists>n r. frame fe now dt evs step_timer g = Some (n, r) \<and> n \<le> nat \<lfloor>(step_timer + dt) * 30\<rfloor>)"
proof -
  have b: "6 \<le> fst (current_fps now g')" "fst (current_fps now g') \<le> 30" for g'
    using current_fps_bounds [of now g'] by (simp_all add: MAX_FPS_def)
  have p: "(0::rat) < 1 / of_int (fst (current_fps now g))"
    using b [of g] by simp
  have q: "(1::rat) / 30 \<le> 1 / of_int (fst (current_fps now g))"
  proof -
    from b [of g] have "(of_int (fst (current_fps now g)) :: rat) \<le> 30" "(0::rat) < of_int (fst (current_fps now g))"
      by (metis of_int_le_iff of_int_numeral, simp)
    then show ?thesis
      by (simp add: frac_le)
  qed
  have l: "\<exists>n r. step_loop fe (1 / of_int (fst (current_fps now g'))) 0 t g'' = Some (n, r) \<and>
      n \<le> nat \<lfloor>t * 30\<rfloor>" for g' g'' t
    using step_loop_fps_bounded [OF b [of g'], of fe 0 t g''] by simp
  have f: "\<exists>n r. frame fe now dt evs step_timer g = Some (n, r) \<and> n \<le> nat \<lfloor>(step_timer + dt) * 30\<rfloor>"
  proof (cases "paused (fold handle_input evs g)")
    case True
    then show ?thesis by (simp add: frame_def Let_def)
  next
    case False
    with l [of "fold handle_input evs g" "step_timer + dt" "snd (current_fps now (fold handle_input evs g))"]
    show ?thesis
      by (simp add: frame_def Let_def split_beta)
  qed
  from b [of g] p q l [of g timer "snd (current_fps now g)"] f show ?thesis
    by blast
qed

section \<open>Spawning food\<close>

lemma spawn_food_in_accepts:
  "spawn_food_in sn sobs mobs ds = Inr p \<Longrightarrow> spawn_accepts sn sobs mobs p"
  by (induction ds) (auto split: if_splits)

lemma spawn_food_in_returns:
  "\<exists>d \<in> set ds. spawn_accepts sn sobs mobs (grid_pos d) \<Longrightarrow>
   \<exists>p. spawn_food_in sn sobs mobs ds = Inr p"
  by (induction ds) auto

lemma spawn_accepts_clear:
  "spawn_accepts sn sobs mobs p \<longleftrightarrow>
     p \<notin> set sn \<and> (\<forall>ob \<in> set sobs. \<not> colliderect ob (cell_rect p)) \<and>
     (\<forall>m \<in> set mobs. \<not> colliderect (rect m) (cell_rect p)) \<and> GRID * 2 < snd p"
  by (auto simp: spawn_accepts_def spawn_bad_def list_ex_iff cell_rect_def)

lemma eat_food_respawn:
  assumes "eat_food ds r c pds now g = Inr (True, g')"
  shows "spawn_accepts (snake g') (static_obstacles g') (moving_obstacles g') (food g')"
proof -
  let ?g1 = "update_level (g\<lparr>score := score g + 1\<rparr>)"
  from eat_food_True [OF assms] obtain p where
    sp: "spawn_food ?g1 ds = Inr p"
    and m: "maybe_spawn_powerup r c pds now (?g1\<lparr>food := p\<rparr>) = Inr g'"
    by blast
  from sp have "spawn_accepts (snake g) (static_obstacles g) (moving_obstacles g) p"
    by (auto simp: spawn_food_def update_level_def dest: spawn_food_in_accepts)
  moreover from maybe_spawn_powerup_frame [OF m]
  have "snake g' = snake g" "static_obstacles g' = static_obstacles g"
    "moving_obstacles g' = moving_obstacles g" "food g' = p"
    by (simp_all add: update_level_def)
  ultimately show ?thesis by simp
qed

lemma reset_all_food:
  assumes "reset_all ie = Inr g"
  shows "spawn_accepts (snake g) [] [] (food g)"
proof -
  from assms obtain f where f: "spawn_food_in spawn_snake [] [] (init_draws ie) = Inr f"
    and g: "food g = f" "snake g = spawn_snake"
    by (auto simp: reset_all_def bind_eq_Inr)
  from spawn_food_in_accepts [OF f] g show ?thesis by simp
qed

text \<open>
  What \<open>spawn_food\<close> guarantees at each call: the cell it returns is not a snake
  segment, does not collide with any static or moving obstacle that the game holds at
  the moment of the call, and has \<open>y > GRID * 2\<close>, below the top band. This covers every
  caller (normal food, special food, power-ups). After \<open>eat_food\<close> has respawned the
  food, the new food has these properties in the resulting game. The first food of a new
  game is off the snake and below the band. Last conjunct: the spawner does return once
  one of its draws is admissible.
\<close>

theorem spawn_food_clear:
  "(spawn_food g ds = Inr p \<longrightarrow>
      p \<notin> set (snake g) \<and>
      (\<forall>ob \<in> set (static_obstacles g). \<not> colliderect ob (cell_rect p)) \<and>
      (\<forall>m \<in> set (moving_obstacles g). \<not> colliderect (rect m) (cell_rect p)) \<and>
      GRID * 2 < snd p) \<and>
   (eat_food ds r c pds now g = Inr (True, g') \<longrightarrow>
      food g' \<notin> set (snake g') \<and>
      (\<forall>ob \<in> set (static_obstacles g'). \<not> colliderect ob (cell_rect (food g'))) \<and>
      (\<forall>m \<in> set (moving_obstacles g'). \<not> colliderect (rect m) (cell_rect (food g'))) \<and>
      GRID * 2 < snd (food g')) \<and>
   (reset_all ie = Inr g0 \<longrightarrow> food g0 \<notin> set (snake g0) \<and> GRID * 2 < snd (food g0)) \<and>
   ((\<exists>d \<in> set ds. spawn_accepts (snake g) (static_obstacles g) (moving_obstacles g) (grid_pos d)) \<longrightarrow>
      (\<exists>q. spawn_food g ds = Inr q))"
proof (intro conjI impI)
  assume "spawn_food g ds = Inr p"
  then have "spawn_accepts (snake g) (static_obstacles g) (moving_obstacles g) p"
    unfolding spawn_food_def by (rule spawn_food_in_accepts)
  then show "p \<notin> set (snake g)"
    "\<forall>ob \<in> set (static_obstacles g). \<not> colliderect ob (cell_rect p)"
    "\<forall>m \<in> set (moving_obstacles g). \<not> colliderect (rect m) (cell_rect p)"
    "GRID * 2 < snd p"
    unfolding spawn_accepts_clear by blast+
next
  assume "eat_food ds r c pds now g = Inr (True, g')"
  from eat_food_respawn [OF this]
  show "food g' \<notin> set (snake g')"
    "\<forall>ob \<in> set (static_obstacles g'). \<not> colliderect ob (cell_rect (food g'))"
    "\<forall>m \<in> set (moving_obstacles g'). \<not> colliderect (rect m) (cell_rect (food g'))"
    "GRID * 2 < snd (food g')"
    unfolding spawn_accepts_clear by blast+
next
  assume "reset_all ie = Inr g0"
  from reset_all_food [OF this]
  show "food g0 \<notin> set (snake g0)" "GRID * 2 < snd (food g0)"
    unfolding spawn_accepts_clear by blast+
next
  assume "\<exists>d \<in> set ds. spawn_accepts (snake g) (static_obstacles g) (moving_obstacles g) (grid_pos d)"
  then show "\<exists>q. spawn_food g ds = Inr q"
    unfolding spawn_food_def by (rule spawn_food_in_returns)
qed

lemma eval_spawn: "spawn_food game_eating [(15, 9), (5, 5)] = Inr (100, 100)"
  by (simp add: spawn_food_def spawn_accepts_def spawn_bad_def grid_pos_def game_eating_def
      game0_def colliderect_def Rect_def config_defs)

lemma eval_eat: "eat_food [(15, 9), (5, 5)] (1 / 2) 2 [(7, 7)] 1000 game_eating =
    Inr (True, game_eating\<lparr>score := 1, food := (100, 100)\<rparr>)"
  by (simp add: eat_food_def snake_head_def game_eating_def game0_def update_level_def
      maybe_spawn_powerup_def spawn_food_def spawn_accepts_def spawn_bad_def grid_pos_def
      colliderect_def Rect_def config_defs)

lemma eval_reset: "reset_all init0 = Inr game0"
  by (simp add: reset_all_def init0_def game0_def spawn_snake_def spawn_accepts_def spawn_bad_def
      grid_pos_def config_defs)

theorem spawn_food_clear_witness:
  "spawn_food game_eating [(15, 9), (5, 5)] = Inr (100, 100) \<and>
   (100, 100) \<notin> set (snake game_eating) \<and>
   \<not> colliderect (Rect 40 100 40 20) (cell_rect (100, 100)) \<and>
   \<not> colliderect (Rect 20 300 40 20) (cell_rect (100, 100)) \<and>
   GRID * 2 < (100::int) \<and>
   eat_food [(15, 9), (5, 5)] (1 / 2) 2 [(7, 7)] 1000 game_eating =
     Inr (True, game_eating\<lparr>score := 1, food := (100, 100)\<rparr>) \<and>
   reset_all init0 = Inr game0 \<and> food game0 \<notin> set (snake game0) \<and> GRID * 2 < snd (food game0)"
proof -
  note t = spawn_food_clear [of game_eating "[(15, 9), (5, 5)]" "(100, 100)" "1 / 2" 2 "[(7, 7)]" 1000
      "game_eating\<lparr>score := 1, food := (100, 100)\<rparr>" init0 game0]
  have so: "static_obstacles game_eating = [Rect 40 100 40 20]"
    and mo: "moving_obstacles game_eating = [\<lparr>rect = Rect 20 300 40 20, dx = 2\<rparr>]"
    by (simp_all add: game_eating_def game0_def)
  from t eval_spawn have a: "(100, 100) \<notin> set (snake game_eating) \<and>
      (\<forall>ob \<in> set (static_obstacles game_eating). \<not> colliderect ob (cell_rect (100, 100))) \<and>
      (\<forall>m \<in> set (moving_obstacles game_eating). \<not> colliderect (rect m) (cell_rect (100, 100))) \<and>
      GRID * 2 < snd ((100, 100) :: cell)"
    by blast
  from t eval_reset have c: "food game0 \<notin> set (snake game0) \<and> GRID * 2 < snd (food game0)"
    by blast
  from a so mo have a': "(100, 100) \<notin> set (snake game_eating) \<and>
      \<not> colliderect (Rect 40 100 40 20) (cell_rect (100, 100)) \<and>
      \<not> colliderect (Rect 20 300 40 20) (cell_rect (100, 100)) \<and> GRID * 2 < (100::int)"
    by simp
  from a' c eval_spawn eval_eat eval_reset show ?thesis
    by blast
qed

text \<open>
  Claim C9. Every food cell, the first food of a new game included, is off the snake,
  clear of every static and moving obstacle of the game, and below the top band. The
  respawn after eating meets this (\<open>spawn_food_clear\<close>). The first food does not:
  \<open>reset_all\<close> calls \<open>spawn_food\<close> before \<open>make_obstacles\<close> has run, so the obstacle tests
  of \<open>spawn_food\<close> (its comment: avoid obstacles and snake body) see no obstacle, and
  the obstacles the new game then receives are never compared with the food. With the
  inputs \<open>init_covered\<close> the new game's food \<open>(100, 100)\<close> lies inside its first static
  obstacle.
\<close>

theorem initial_food_covered:
  "map_sum id
     (\<lambda>g. (food g, list_ex (\<lambda>ob. colliderect ob (cell_rect (food g))) (static_obstacles g)))
     (Game init_covered) = Inr ((100, 100), True)"
  by (simp add: Game_def reset_all_def init_covered_def spawn_snake_def spawn_accepts_def
      spawn_bad_def grid_pos_def colliderect_def Rect_def cell_rect_def config_defs)

section \<open>Frame facts of the step phases\<close>

lemma same_body_refl [simp]: "same_body g g"
  by (simp add: same_body_def)

lemma same_body_trans: "same_body g g1 \<Longrightarrow> same_body g1 g2 \<Longrightarrow> same_body g g2"
  by (simp add: same_body_def)

lemma eat_food_False:
  assumes "eat_food ds r c pds now g = Inr (False, g')"
  shows "g' = g"
proof -
  from assms obtain h where h: "snake_head g = Inr h"
    and rest: "(let ate = (fst h = fst (food g) \<and> snd h = snd (food g))
            in if ate then
                 (let g1 = update_level (g\<lparr>score := score g + 1\<rparr>)
                  in bind (spawn_food g1 ds)
                       (\<lambda>p. bind (maybe_spawn_powerup r c pds now (g1\<lparr>food := p\<rparr>))
                              (\<lambda>g2. Inr (ate, g2))))
               else Inr (ate, g)) = Inr (False, g')"
    unfolding eat_food_def bind_eq_Inr by blast
  show ?thesis
  proof (cases "fst h = fst (food g) \<and> snd h = snd (food g)")
    case True
    with rest show ?thesis
      by (simp add: Let_def bind_eq_Inr)
  next
    case False
    with rest show ?thesis by (simp add: Let_def)
  qed
qed

lemma eat_food_body:
  assumes "eat_food ds r c pds now g = Inr (a, g')"
  shows "same_body g g'"
proof (cases a)
  case True
  with assms have "eat_food ds r c pds now g = Inr (True, g')"
    by simp
  from eat_food_True [OF this] obtain p where
    m: "maybe_spawn_powerup r c pds now ((update_level (g\<lparr>score := score g + 1\<rparr>))\<lparr>food := p\<rparr>) =
      Inr g'"
    by blast
  from maybe_spawn_powerup_frame [OF m] show ?thesis
    by (simp add: same_body_def update_level_def)
next
  case False
  with assms have "eat_food ds r c pds now g = Inr (False, g')"
    by simp
  from eat_food_False [OF this] show ?thesis by simp
qed

lemma eat_special_food_body:
  assumes "eat_special_food g = Inr (a, g')"
  shows "same_body g g'"
  using assms
  by (auto simp: eat_special_food_def update_level_def bind_eq_Inr same_body_def
      split: option.splits if_splits)

lemma apply_power_body: "same_body g ((apply_power k now g)\<lparr>powerups := rest\<rparr>)"
  by (simp add: apply_power_def same_body_def Let_def)

lemma pickup_powerup_body:
  assumes "pickup_powerup now g = Inr (a, g')"
  shows "same_body g g'"
proof (cases "snake_head g")
  case (Inl f)
  with assms show ?thesis
    by (simp add: pickup_powerup_def)
next
  case (Inr h)
  show ?thesis
  proof (cases "first_pickup (Rect (fst h) (snd h) GRID GRID) (powerups g)")
    case None
    with Inr assms show ?thesis
      by (simp add: pickup_powerup_def)
  next
    case (Some pr)
    obtain p ps where "pr = (p, ps)"
      by (cases pr)
    with Some Inr assms have "g' = (apply_power (kind p) now g)\<lparr>powerups := ps\<rparr>"
      by (simp add: pickup_powerup_def)
    then show ?thesis
      by (simp add: apply_power_body)
  qed
qed

lemma spawn_special_food_body:
  assumes "spawn_special_food ds now g = Inr g'"
  shows "same_body g g'"
  using assms by (auto simp: spawn_special_food_def bind_eq_Inr same_body_def)

lemma update_body:
  assumes "update now r ds tsp tal g = Inr g'"
  shows "same_body g g'"
proof -
  let ?g1 = "g\<lparr>moving_obstacles := map moving_update (moving_obstacles g)\<rparr>"
  let ?m = "if special_food ?g1 = None \<and> now - last_special_check ?g1 > SPECIAL_FOOD_EVERY * 1000
               then (let g2 = ?g1\<lparr>last_special_check := now\<rparr>
                     in if r < 1 / 2 then spawn_special_food ds tsp g2 else Inr g2)
               else Inr ?g1"
  from assms obtain g3 where g3: "?m = Inr g3"
    and g': "g' = (if special_food g3 \<noteq> None \<and> now - special_spawned_at g3 > SPECIAL_FOOD_TTL
                            then g3\<lparr>special_food := None\<rparr> else g3)
                 \<lparr>powerups := filter (powerup_alive tal)
                    (powerups (if special_food g3 \<noteq> None \<and> now - special_spawned_at g3 > SPECIAL_FOOD_TTL
                            then g3\<lparr>special_food := None\<rparr> else g3))\<rparr>"
    unfolding update_def Let_def bind_eq_Inr by auto
  have a: "same_body g ?g1"
    by (simp add: same_body_def)
  have b: "same_body ?g1 g3"
  proof (cases "special_food ?g1 = None \<and> now - last_special_check ?g1 > SPECIAL_FOOD_EVERY * 1000")
    case False
    with g3 show ?thesis by auto
  next
    case True
    show ?thesis
    proof (cases "r < 1 / 2")
      case False
      with True g3 show ?thesis by (auto simp: Let_def same_body_def)
    next
      case lt: True
      with True g3 have "spawn_special_food ds tsp (?g1\<lparr>last_special_check := now\<rparr>) = Inr g3"
        by (simp add: Let_def)
      from spawn_special_food_body [OF this] show ?thesis
        by (simp add: same_body_def)
    qed
  qed
  have c: "same_body g3 g'"
    unfolding g' by (simp add: same_body_def)
  from a b c show ?thesis
    by (blast intro: same_body_trans)
qed

lemma move_snake_Inr:
  assumes "move_snake g = Inr g'"
  shows "snake g \<noteq> [] \<and>
    g' = g\<lparr>dir := next_dir g,
          snake := snake g @ [(fst (last (snake g)) + fst (next_dir g),
                               snd (last (snake g)) + snd (next_dir g))]\<rparr>"
  using assms
  by (auto simp: move_snake_def snake_head_def Let_def bind_eq_Inr split: if_splits)

lemma move_snake_total:
  assumes "snake g \<noteq> []"
  shows "\<exists>g'. move_snake g = Inr g'"
  using assms by (simp add: move_snake_def snake_head_def Let_def)

lemma move_and_eat_Inr_iff:
  "move_and_eat e g = Inr (grew, g4) \<longleftrightarrow>
     (\<exists>g1 a1 g2 a2 g3 picked.
        move_snake g = Inr g1 \<and>
        eat_food (food_draws e) (powerup_random e) (powerup_choice e)
          (powerup_draws e) (powerup_clock e) g1 = Inr (a1, g2) \<and>
        eat_special_food g2 = Inr (a2, g3) \<and>
        pickup_powerup (apply_clock e) g3 = Inr (picked, g4) \<and>
        grew = (a1 \<or> a2))"
  unfolding move_and_eat_def by (simp add: bind_eq_Inr) blast

lemma move_and_eat_Inr:
  assumes "move_and_eat e g = Inr (grew, g4)"
  shows "\<exists>g1. move_snake g = Inr g1 \<and> same_body g1 g4"
proof -
  from assms obtain g1 a1 g2 a2 g3 picked where
    m: "move_snake g = Inr g1"
    and e1: "eat_food (food_draws e) (powerup_random e) (powerup_choice e)
                     (powerup_draws e) (powerup_clock e) g1 = Inr (a1, g2)"
    and e2: "eat_special_food g2 = Inr (a2, g3)"
    and pk: "pickup_powerup (apply_clock e) g3 = Inr (picked, g4)"
    unfolding move_and_eat_Inr_iff by blast
  from eat_food_body [OF e1] eat_special_food_body [OF e2] pickup_powerup_body [OF pk]
  have "same_body g1 g4"
    by (blast intro: same_body_trans)
  with m show ?thesis by blast
qed

lemma trim_tail_Inr:
  assumes "trim_tail grew g = Inr g'"
  shows "g' = g\<lparr>snake := (if grew then snake g else tl (snake g))\<rparr> \<and> (grew \<or> snake g \<noteq> [])"
  using assms by (auto simp: trim_tail_def split: if_splits)

lemma step_Inr:
  assumes "step e g = Inr out"
  shows "\<exists>grew g4 g5. move_and_eat e g = Inr (grew, g4) \<and> trim_tail grew g4 = Inr g5 \<and>
    resolve e g5 = Inr out"
proof (cases "move_and_eat e g")
  case (Inl f)
  with assms show ?thesis by (simp add: step_def)
next
  case (Inr r)
  obtain grew g4 where r: "r = (grew, g4)"
    by (cases r)
  show ?thesis
  proof (cases "trim_tail grew g4")
    case (Inl f)
    with Inr r assms show ?thesis by (simp add: step_def)
  next
    case t: (Inr g5)
    with Inr r assms have "resolve e g5 = Inr out"
      by (simp add: step_def)
    with Inr r t show ?thesis by blast
  qed
qed

lemma world_update_Inr:
  assumes "world_update e g = Inr out"
  shows "\<exists>g'. out = Playing g' \<and> same_body g g'"
proof (cases "update (update_clock e) (special_random e) (special_draws e) (special_clock e)
             (alive_clock e) g")
  case (Inl f)
  with assms show ?thesis by (simp add: world_update_def)
next
  case (Inr g')
  with assms have "out = Playing g'"
    by (simp add: world_update_def)
  with update_body [OF Inr] show ?thesis by blast
qed

lemma resolve_Inr_check:
  assumes "resolve e g = Inr out"
  shows "\<exists>hit. check_collisions g = Inr hit"
  using assms by (cases "check_collisions g") (simp_all add: resolve_def)

lemma resolve_hit:
  assumes c: "check_collisions g = Inr True" and r: "resolve e g = Inr out"
  shows "if lives g \<le> 1
        then out = GameOver ((reset_after_hit g)\<lparr>high := max (high g) (score g)\<rparr>)
        else \<exists>g'. out = Playing g' \<and> same_body (reset_after_hit g) g'"
proof (cases "lives g \<le> 1")
  case True
  with r resolve_collision [OF c, of e] show ?thesis
    by simp
next
  case False
  with r resolve_collision [OF c, of e] have "world_update e (reset_after_hit g) = Inr out"
    by simp
  from world_update_Inr [OF this] False show ?thesis
    by simp
qed

lemma resolve_miss:
  assumes c: "check_collisions g = Inr False" and r: "resolve e g = Inr out"
  shows "\<exists>g'. out = Playing g' \<and> same_body g g'"
proof -
  from c r have "world_update e g = Inr out"
    by (simp add: resolve_def)
  then show ?thesis
    by (rule world_update_Inr)
qed

section \<open>Direction changes\<close>

lemma same_body_inv: "same_body g g' \<Longrightarrow> game_inv g \<Longrightarrow> game_inv g'"
  by (simp add: same_body_def game_inv_def)

lemma cardinal_not_opposite: "cardinal d \<Longrightarrow> d \<noteq> opposite d"
  by (auto simp: cardinal_def opposite_def GRID_def)

lemma game_inv_spawn:
  assumes "snake g = spawn_snake" and "dir g = (0, - GRID)" and "next_dir g = (0, - GRID)"
  shows "game_inv g"
  using assms by (simp add: game_inv_def cardinal_def opposite_def spawn_snake_def GRID_def)

lemma game_inv_Game:
  assumes "Game ie = Inr g"
  shows "game_inv g"
proof -
  from assms have "reset_all ie = Inr g"
    by (simp add: Game_def)
  from reset_all_spawn [OF this] show ?thesis
    by (simp add: game_inv_spawn)
qed

lemma game_inv_reset_after_hit: "game_inv (reset_after_hit g)"
  by (rule game_inv_spawn) (simp_all add: reset_after_hit_def Let_def)

lemma game_inv_handle_input:
  assumes "game_inv g"
  shows "game_inv (handle_input ev g)"
proof (cases ev)
  case (KEYDOWN k)
  from assms have c: "cardinal (dir g)" and n: "cardinal (next_dir g)"
    and o: "next_dir g \<noteq> opposite (dir g)" and s: "snake g \<noteq> []"
    by (simp_all add: game_inv_def)
  from c consider "dir g = (0, - GRID)" | "dir g = (0, GRID)" | "dir g = (- GRID, 0)"
    | "dir g = (GRID, 0)"
    unfolding cardinal_def by blast
  then show ?thesis
  proof cases
    case 1
    with KEYDOWN n o s show ?thesis
      by (simp add: handle_input_def game_inv_def cardinal_def opposite_def GRID_def)
  next
    case 2
    with KEYDOWN n o s show ?thesis
      by (simp add: handle_input_def game_inv_def cardinal_def opposite_def GRID_def)
  next
    case 3
    with KEYDOWN n o s show ?thesis
      by (simp add: handle_input_def game_inv_def cardinal_def opposite_def GRID_def)
  next
    case 4
    with KEYDOWN n o s show ?thesis
      by (simp add: handle_input_def game_inv_def cardinal_def opposite_def GRID_def)
  qed
next
  case QUIT
  with assms show ?thesis by (simp add: handle_input_def)
next
  case OTHER_EVENT
  with assms show ?thesis by (simp add: handle_input_def)
qed

lemma game_inv_move_snake:
  assumes "game_inv g" and "move_snake g = Inr g'"
  shows "game_inv g'"
proof -
  from move_snake_Inr [OF assms(2)] have
    "dir g' = next_dir g" "next_dir g' = next_dir g" "snake g' \<noteq> []"
    by simp_all
  with assms(1) cardinal_not_opposite [of "next_dir g"] show ?thesis
    by (simp add: game_inv_def)
qed

lemma game_inv_step:
  assumes inv: "game_inv g" and st: "step e g = Inr (Playing g')"
  shows "game_inv g'"
proof -
  from step_Inr [OF st] obtain grew g4 g5 where
    me: "move_and_eat e g = Inr (grew, g4)" and tt: "trim_tail grew g4 = Inr g5"
    and rs: "resolve e g5 = Inr (Playing g')"
    by blast
  from move_and_eat_Inr [OF me] obtain g1 where
    mv: "move_snake g = Inr g1" and b: "same_body g1 g4"
    by blast
  from game_inv_move_snake [OF inv mv] b have i4: "game_inv g4"
    by (rule same_body_inv [rotated])
  from move_snake_Inr [OF mv] b have "tl (snake g4) \<noteq> []"
    by (cases "snake g") (simp_all add: same_body_def)
  with trim_tail_Inr [OF tt] i4 have i5: "game_inv g5"
    by (auto simp: game_inv_def)
  from resolve_Inr_check [OF rs] obtain hit where h: "check_collisions g5 = Inr hit"
    by blast
  show ?thesis
  proof (cases hit)
    case True
    with h have "check_collisions g5 = Inr True"
      by simp
    from resolve_hit [OF this rs] have "same_body (reset_after_hit g5) g'"
      by (auto split: if_splits)
    with game_inv_reset_after_hit show ?thesis
      by (rule same_body_inv [rotated])
  next
    case False
    with h have "check_collisions g5 = Inr False"
      by simp
    from resolve_miss [OF this rs] have "same_body g5 g'"
      by auto
    with i5 show ?thesis
      by (rule same_body_inv [rotated])
  qed
qed

lemma current_fps_body: "same_body g (snd (current_fps now g))"
  by (simp add: current_fps_def power_multiplier_def same_body_def split: option.splits prod.splits)

lemma reachable_inv:
  assumes "reachable g"
  shows "game_inv g"
  using assms
proof induction
  case (start ie g)
  then show ?case by (rule game_inv_Game)
next
  case (input g ev)
  then show ?case by (simp add: game_inv_handle_input)
next
  case (tick g e g')
  then show ?case by (blast intro: game_inv_step)
next
  case (query g now)
  with current_fps_body show ?case by (blast intro: same_body_inv)
qed

text \<open>
  Within one step: in every reachable game the next \<open>move_snake\<close> succeeds and commits
  the buffered direction, which is never the exact opposite of the value \<open>dir\<close> has when
  the step starts. A direction key changes the buffer exactly when the axis of the
  requested direction differs from the axis of the committed direction; otherwise the
  buffer is unchanged.
\<close>

theorem no_reversal:
  assumes "reachable g"
  shows "(\<exists>g'. move_snake g = Inr g') \<and>
    (\<forall>g'. move_snake g = Inr g' \<longrightarrow> dir g' = next_dir g \<and> dir g' \<noteq> opposite (dir g)) \<and>
    (\<forall>k d. key_dir k = Some d \<longrightarrow>
       next_dir (handle_input (KEYDOWN k) g) =
         (if axis_of d \<noteq> axis_of (dir g) then d else next_dir g))"
proof -
  from reachable_inv [OF assms] have c: "cardinal (dir g)"
    and o: "next_dir g \<noteq> opposite (dir g)" and s: "snake g \<noteq> []"
    by (simp_all add: game_inv_def)
  have 1: "\<exists>g'. move_snake g = Inr g'"
    using s by (rule move_snake_total)
  have 2: "dir g' = next_dir g \<and> dir g' \<noteq> opposite (dir g)" if "move_snake g = Inr g'" for g'
    using move_snake_Inr [OF that] o by simp
  have 3: "next_dir (handle_input (KEYDOWN k) g) =
         (if axis_of d \<noteq> axis_of (dir g) then d else next_dir g)" if "key_dir k = Some d" for k d
  proof -
    from c consider "dir g = (0, - GRID)" | "dir g = (0, GRID)" | "dir g = (- GRID, 0)"
      | "dir g = (GRID, 0)"
      unfolding cardinal_def by blast
    then show ?thesis
    proof cases
      case 1
      with that show ?thesis
        by (cases k) (auto simp add: key_dir_def handle_input_def axis_of_def GRID_def)
    next
      case 2
      with that show ?thesis
        by (cases k) (auto simp add: key_dir_def handle_input_def axis_of_def GRID_def)
    next
      case 3
      with that show ?thesis
        by (cases k) (auto simp add: key_dir_def handle_input_def axis_of_def GRID_def)
    next
      case 4
      with that show ?thesis
        by (cases k) (auto simp add: key_dir_def handle_input_def axis_of_def GRID_def)
    qed
  qed
  from 1 2 3 show ?thesis by blast
qed

text \<open>
  Left is pressed while the snake moves up: Left is buffered, Down (same axis as up) is
  then refused, Right (other axis) replaces the buffered Left, and the step commits Left.
\<close>

theorem no_reversal_witness:
  "reachable game_left \<and> dir game_left = (0, - 20) \<and>
   map_sum id dir (move_snake game_left) = Inr (- 20, 0) \<and>
   (- 20, 0) \<noteq> opposite (dir game_left) \<and>
   key_dir K_DOWN = Some (0, 20) \<and>
   next_dir (handle_input (KEYDOWN K_DOWN) game_left) = (- 20, 0) \<and>
   key_dir K_RIGHT = Some (20, 0) \<and>
   next_dir (handle_input (KEYDOWN K_RIGHT) game_left) = (20, 0)"
proof -
  have "Game init0 = Inr game0"
    by (simp add: Game_def eval_reset)
  then have "reachable game0"
    by (rule reachable.start)
  then have r: "reachable game_left"
    unfolding game_left_def by (rule reachable.input)
  note t = no_reversal [OF r]
  have d: "dir game_left = (0, - 20)" and n: "next_dir game_left = (- 20, 0)"
    by (simp_all add: game_left_def handle_input_def game0_def GRID_def)
  from t obtain g' where m: "move_snake game_left = Inr g'"
    by blast
  with t have "dir g' = next_dir game_left \<and> dir g' \<noteq> opposite (dir game_left)"
    by blast
  with m n have a: "map_sum id dir (move_snake game_left) = Inr (- 20, 0) \<and>
      (- 20, 0) \<noteq> opposite (dir game_left)"
    by auto
  have kd: "key_dir K_DOWN = Some (0, 20)" and kr: "key_dir K_RIGHT = Some (20, 0)"
    by (simp_all add: key_dir_def GRID_def)
  from t kd have "next_dir (handle_input (KEYDOWN K_DOWN) game_left) =
      (if axis_of (0, 20) \<noteq> axis_of (dir game_left) then (0, 20) else next_dir game_left)"
    by blast
  with d n have b: "next_dir (handle_input (KEYDOWN K_DOWN) game_left) = (- 20, 0)"
    by (simp add: axis_of_def)
  from t kr have "next_dir (handle_input (KEYDOWN K_RIGHT) game_left) =
      (if axis_of (20, 0) \<noteq> axis_of (dir game_left) then (20, 0) else next_dir game_left)"
    by blast
  with d n have c: "next_dir (handle_input (KEYDOWN K_RIGHT) game_left) = (20, 0)"
    by (simp add: axis_of_def)
  from r d a kd b kr c show ?thesis
    by blast
qed

section \<open>Order of trimming and collision check\<close>

lemma move_and_eat_snake:
  assumes "move_and_eat e g = Inr (grew, g4)"
  shows "snake g \<noteq> [] \<and> snake g4 = snake g @ [new_head g]"
proof -
  from move_and_eat_Inr [OF assms] obtain g1 where
    mv: "move_snake g = Inr g1" and b: "same_body g1 g4"
    by blast
  from move_snake_Inr [OF mv] b show ?thesis
    by (simp add: same_body_def new_head_def)
qed

lemma check_collisions_head:
  assumes "snake g = body @ [h]"
  shows "check_collisions g =
    Inr (fst h < 0 \<or> fst h \<ge> WIDTH \<or> snd h < GRID * 2 \<or> snd h \<ge> HEIGHT \<or>
         h \<in> set body \<or>
         list_ex (\<lambda>ob. colliderect (cell_rect h) ob) (static_obstacles g) \<or>
         list_ex (\<lambda>m. colliderect (cell_rect h) (rect m)) (moving_obstacles g))"
  using assms by (simp add: check_collisions_def snake_head_def cell_rect_def Let_def)

lemma trim_after_move:
  assumes me: "move_and_eat e g = Inr (grew, g4)"
  shows "trim_tail grew g4 =
    Inr (g4\<lparr>snake := (if grew then snake g else tl (snake g)) @ [new_head g]\<rparr>)"
proof -
  from move_and_eat_snake [OF me] have ne: "snake g \<noteq> []"
    and s4: "snake g4 = snake g @ [new_head g]"
    by simp_all
  show ?thesis
  proof (cases grew)
    case True
    have "g4\<lparr>snake := snake g4\<rparr> = g4"
      by simp
    with True s4 show ?thesis
      by (simp add: trim_tail_def)
  next
    case False
    with ne s4 show ?thesis
      by (simp add: trim_tail_def)
  qed
qed

lemma eval_square_move: "move_and_eat env0 game_square =
    Inr (False, game_square\<lparr>dir := (0, - 20),
      snake := [(100, 100), (120, 100), (120, 120), (100, 120), (100, 100)]\<rparr>)"
  by (simp add: step_defs game_square_def game0_def env0_def config_defs)

text \<open>
  Claim C2, as stated: the collision check runs before the tail is trimmed, so the
  self-collision test counts the tail cell that is about to be vacated. In \<open>game_square\<close>
  the new head enters exactly that cell. The check placed before the trim reports a
  collision; the step's own check, made after the trim, reports none, and the step ends
  with all three lives and the snake moved on.
\<close>

theorem collision_counterexample:
  "collision_before_trim env0 game_square = Inr True \<and>
   collision_in_step env0 game_square = Inr False \<and>
   map_sum id (\<lambda>out. (lives (outcome_game out), snake (outcome_game out))) (step env0 game_square) =
     Inr (3, [(120, 100), (120, 120), (100, 120), (100, 100)])"
  by (simp add: collision_before_trim_def collision_in_step_def step_defs game_square_def
      game0_def env0_def outcome_game_def config_defs)

text \<open>
  Claim C2, amended: in every simulation step the collision check runs after the new
  head is appended and after \<open>trim_tail\<close> (which removes the tail unless the snake grew
  in this step). So the step resolves the game whose body is already trimmed, and the
  self-collision test compares the new head with the old segments without the tail cell
  when the snake did not grow, and with all old segments when it grew.
\<close>

theorem collision_after_trim:
  assumes "move_and_eat e g = Inr (grew, g4)"
  shows "step e g =
      resolve e (g4\<lparr>snake := (if grew then snake g else tl (snake g)) @ [new_head g]\<rparr>) \<and>
    collision_in_step e g =
      check_collisions (g4\<lparr>snake := (if grew then snake g else tl (snake g)) @ [new_head g]\<rparr>) \<and>
    collision_in_step e g =
      Inr (fst (new_head g) < 0 \<or> fst (new_head g) \<ge> WIDTH \<or>
           snd (new_head g) < GRID * 2 \<or> snd (new_head g) \<ge> HEIGHT \<or>
           new_head g \<in> set (if grew then snake g else tl (snake g)) \<or>
           list_ex (\<lambda>ob. colliderect (cell_rect (new_head g)) ob) (static_obstacles g4) \<or>
           list_ex (\<lambda>m. colliderect (cell_rect (new_head g)) (rect m)) (moving_obstacles g4))"
proof -
  let ?g5 = "g4\<lparr>snake := (if grew then snake g else tl (snake g)) @ [new_head g]\<rparr>"
  note tt = trim_after_move [OF assms]
  from assms tt have 1: "step e g = resolve e ?g5"
    by (simp add: step_def)
  from assms tt have 2: "collision_in_step e g = check_collisions ?g5"
    by (simp add: collision_in_step_def)
  have "snake ?g5 = (if grew then snake g else tl (snake g)) @ [new_head g]"
    by simp
  from check_collisions_head [OF this] 2 have 3: "collision_in_step e g =
      Inr (fst (new_head g) < 0 \<or> fst (new_head g) \<ge> WIDTH \<or>
           snd (new_head g) < GRID * 2 \<or> snd (new_head g) \<ge> HEIGHT \<or>
           new_head g \<in> set (if grew then snake g else tl (snake g)) \<or>
           list_ex (\<lambda>ob. colliderect (cell_rect (new_head g)) ob) (static_obstacles g4) \<or>
           list_ex (\<lambda>m. colliderect (cell_rect (new_head g)) (rect m)) (moving_obstacles g4))"
    by simp
  from 1 2 3 show ?thesis by blast
qed

text \<open>In \<open>game_square\<close> the new head is the old tail cell, and the step sees no collision.\<close>

theorem collision_after_trim_witness:
  "move_and_eat env0 game_square =
     Inr (False, game_square\<lparr>dir := (0, - 20),
       snake := [(100, 100), (120, 100), (120, 120), (100, 120), (100, 100)]\<rparr>) \<and>
   new_head game_square = (100, 100) \<and>
   (100, 100) \<in> set (snake game_square) \<and>
   (100, 100) \<notin> set (tl (snake game_square)) \<and>
   collision_in_step env0 game_square = Inr False"
proof -
  note t = collision_after_trim [OF eval_square_move, THEN conjunct2, THEN conjunct2]
  have h: "new_head game_square = (100, 100)"
    by (simp add: new_head_def game_square_def game0_def)
  have s: "snake game_square = [(100, 100), (120, 100), (120, 120), (100, 120)]"
    by (simp add: game_square_def)
  have so: "static_obstacles (game_square\<lparr>dir := (0, - 20),
       snake := [(100, 100), (120, 100), (120, 120), (100, 120), (100, 100)]\<rparr>) = [Rect 40 100 40 20]"
    and mo: "moving_obstacles (game_square\<lparr>dir := (0, - 20),
       snake := [(100, 100), (120, 100), (120, 120), (100, 120), (100, 100)]\<rparr>) =
         [\<lparr>rect = Rect 20 300 40 20, dx = 2\<rparr>]"
    by (simp_all add: game_square_def game0_def)
  from t have "collision_in_step env0 game_square = Inr False"
    unfolding h s so mo
    by (simp add: cell_rect_def colliderect_def Rect_def config_defs)
  with eval_square_move h s show ?thesis
    by simp
qed

section \<open>Snake length\<close>

text \<open>
  Claim C7, as stated: in every step the length grows by one iff \<open>eat_food\<close> or
  \<open>eat_special_food\<close> returned true, and is otherwise unchanged. In \<open>game_wall\<close> nothing
  is eaten (the flag \<open>grew\<close> is false), the snake has three segments, the head hits the
  top band, and after the step the snake has the two segments of the spawn configuration.
\<close>

theorem length_counterexample:
  "map_sum id fst (move_and_eat env0 game_wall) = Inr False \<and>
   length (snake game_wall) = 3 \<and>
   map_sum id (\<lambda>out. length (snake (outcome_game out))) (step env0 game_wall) = Inr 2"
  by (simp add: step_defs game_wall_def game0_def env0_def outcome_game_def config_defs)

text \<open>
  Claim C7, amended: in every step that detects no collision the length grows by exactly
  one iff \<open>eat_food\<close> or \<open>eat_special_food\<close> returned true and is otherwise unchanged; a
  step that detects a collision leaves the snake at the two segments of the spawn
  configuration, whatever was eaten. First conjunct: up to the collision check (after
  \<open>trim_tail\<close>) the count is the old one plus one iff one of the two returned true, in
  every step.
\<close>

theorem snake_length_step:
  assumes mv: "move_snake g = Inr g1"
    and e1: "eat_food (food_draws e) (powerup_random e) (powerup_choice e)
               (powerup_draws e) (powerup_clock e) g1 = Inr (a1, g2)"
    and e2: "eat_special_food g2 = Inr (a2, g3)"
    and st: "step e g = Inr out"
  shows "(\<exists>g4 g5. move_and_eat e g = Inr (a1 \<or> a2, g4) \<and> trim_tail (a1 \<or> a2) g4 = Inr g5 \<and>
       length (snake g5) = length (snake g) + (if a1 \<or> a2 then 1 else 0)) \<and>
    (collision_in_step e g = Inr False \<or> collision_in_step e g = Inr True) \<and>
    (collision_in_step e g = Inr False \<longrightarrow>
       length (snake (outcome_game out)) = length (snake g) + (if a1 \<or> a2 then 1 else 0)) \<and>
    (collision_in_step e g = Inr True \<longrightarrow>
       snake (outcome_game out) = spawn_snake \<and> length (snake (outcome_game out)) = 2)"
proof -
  from step_Inr [OF st] obtain grew g4 g5 where
    me: "move_and_eat e g = Inr (grew, g4)" and tt: "trim_tail grew g4 = Inr g5"
    and rs: "resolve e g5 = Inr out"
    by blast
  from me mv e1 e2 have grew: "grew = (a1 \<or> a2)"
    unfolding move_and_eat_Inr_iff by auto
  from move_and_eat_snake [OF me] have ne: "snake g \<noteq> []"
    by simp
  from tt trim_after_move [OF me] have g5: "snake g5 =
      (if grew then snake g else tl (snake g)) @ [new_head g]"
    by auto
  from g5 ne have len5: "length (snake g5) = length (snake g) + (if grew then 1 else 0)"
    by (cases "snake g") auto
  from me tt len5 have pre: "\<exists>g4 g5. move_and_eat e g = Inr (a1 \<or> a2, g4) \<and>
      trim_tail (a1 \<or> a2) g4 = Inr g5 \<and>
      length (snake g5) = length (snake g) + (if a1 \<or> a2 then 1 else 0)"
    unfolding grew by blast
  from me tt have cs: "collision_in_step e g = check_collisions g5"
    by (simp add: collision_in_step_def)
  from resolve_Inr_check [OF rs] obtain hit where h: "check_collisions g5 = Inr hit"
    by blast
  have post: "(collision_in_step e g = Inr False \<or> collision_in_step e g = Inr True) \<and>
    (collision_in_step e g = Inr False \<longrightarrow>
       length (snake (outcome_game out)) = length (snake g) + (if a1 \<or> a2 then 1 else 0)) \<and>
    (collision_in_step e g = Inr True \<longrightarrow>
       snake (outcome_game out) = spawn_snake \<and> length (snake (outcome_game out)) = 2)"
  proof (cases hit)
    case True
    with h have c: "check_collisions g5 = Inr True"
      by simp
    from resolve_hit [OF c rs] have "same_body (reset_after_hit g5) (outcome_game out)"
      by (auto simp: outcome_game_def same_body_def split: if_splits)
    then have "snake (outcome_game out) = spawn_snake"
      by (simp add: same_body_def reset_after_hit_def Let_def)
    with c cs show ?thesis
      by (simp add: spawn_snake_def)
  next
    case False
    with h have c: "check_collisions g5 = Inr False"
      by simp
    from resolve_miss [OF c rs] have "snake (outcome_game out) = snake g5"
      by (auto simp: outcome_game_def same_body_def)
    with len5 have "length (snake (outcome_game out)) =
        length (snake g) + (if grew then 1 else 0)"
      by simp
    with c cs grew show ?thesis
      by simp
  qed
  from pre post show ?thesis ..
qed

text \<open>
  From \<open>game0\<close> the step eats the food and the snake grows from two to three segments;
  from \<open>game_wall\<close> the step collides and the snake is the spawn snake.
\<close>

theorem snake_length_step_witness:
  "move_snake game0 = Inr game_eating \<and>
   eat_food (food_draws env0) (powerup_random env0) (powerup_choice env0) (powerup_draws env0)
     (powerup_clock env0) game_eating = Inr (True, game_eating\<lparr>score := 1, food := (100, 100)\<rparr>) \<and>
   eat_special_food (game_eating\<lparr>score := 1, food := (100, 100)\<rparr>) =
     Inr (False, game_eating\<lparr>score := 1, food := (100, 100)\<rparr>) \<and>
   collision_in_step env0 game0 = Inr False \<and>
   length (snake game0) = 2 \<and>
   map_sum id (\<lambda>out. length (snake (outcome_game out))) (step env0 game0) = Inr 3 \<and>
   collision_in_step env0 game_wall = Inr True \<and>
   map_sum id (\<lambda>out. snake (outcome_game out)) (step env0 game_wall) = Inr spawn_snake"
proof -
  have mv: "move_snake game0 = Inr game_eating"
    by (simp add: move_snake_def snake_head_def game_eating_def game0_def)
  have e1: "eat_food (food_draws env0) (powerup_random env0) (powerup_choice env0)
      (powerup_draws env0) (powerup_clock env0) game_eating =
      Inr (True, game_eating\<lparr>score := 1, food := (100, 100)\<rparr>)"
    using eval_eat by (simp add: env0_def)
  have e2: "eat_special_food (game_eating\<lparr>score := 1, food := (100, 100)\<rparr>) =
      Inr (False, game_eating\<lparr>score := 1, food := (100, 100)\<rparr>)"
    by (simp add: eat_special_food_def game_eating_def game0_def)
  have st: "step env0 game0 = Inr (Playing (game_eating\<lparr>score := 1, food := (100, 100),
      moving_obstacles := [\<lparr>rect = Rect 22 300 40 20, dx = 2\<rparr>]\<rparr>))"
    by (simp add: step_defs game_eating_def game0_def env0_def config_defs)
  have c0: "collision_in_step env0 game0 = Inr False"
    by (simp add: collision_in_step_def step_defs game0_def env0_def config_defs)
  have l0: "length (snake game0) = 2"
    by (simp add: game0_def)
  from snake_length_step [OF mv e1 e2 st] c0 l0
  have a: "map_sum id (\<lambda>out. length (snake (outcome_game out))) (step env0 game0) = Inr 3"
    by (simp add: st)
  have mvw: "move_snake game_wall =
      Inr (game_wall\<lparr>snake := [(300, 80), (300, 60), (300, 40), (300, 20)]\<rparr>)"
    by (simp add: move_snake_def snake_head_def game_wall_def game0_def)
  have e1w: "eat_food (food_draws env0) (powerup_random env0) (powerup_choice env0)
      (powerup_draws env0) (powerup_clock env0)
      (game_wall\<lparr>snake := [(300, 80), (300, 60), (300, 40), (300, 20)]\<rparr>) =
      Inr (False, game_wall\<lparr>snake := [(300, 80), (300, 60), (300, 40), (300, 20)]\<rparr>)"
    by (simp add: eat_food_def snake_head_def game_wall_def game0_def)
  have e2w: "eat_special_food (game_wall\<lparr>snake := [(300, 80), (300, 60), (300, 40), (300, 20)]\<rparr>) =
      Inr (False, game_wall\<lparr>snake := [(300, 80), (300, 60), (300, 40), (300, 20)]\<rparr>)"
    by (simp add: eat_special_food_def game_wall_def game0_def)
  have stw: "step env0 game_wall = Inr (Playing (game_wall\<lparr>lives := 2,
      snake := [(300, 220), (300, 200)],
      moving_obstacles := [\<lparr>rect = Rect 22 300 40 20, dx = 2\<rparr>]\<rparr>))"
    by (simp add: step_defs game_wall_def game0_def env0_def config_defs)
  have cw: "collision_in_step env0 game_wall = Inr True"
    by (simp add: collision_in_step_def step_defs game_wall_def game0_def env0_def config_defs)
  from snake_length_step [OF mvw e1w e2w stw] cw
  have b: "map_sum id (\<lambda>out. snake (outcome_game out)) (step env0 game_wall) = Inr spawn_snake"
    by (simp add: stw)
  from mv e1 e2 c0 l0 a cw b show ?thesis
    by blast
qed

section \<open>High score\<close>

lemma Game_fresh:
  assumes "Game ie = Inr g"
  shows "high g = 0 \<and> score g = 0 \<and> level g = 1 \<and> lives g = LIVES_START"
  using assms by (auto simp: Game_def reset_all_def bind_eq_Inr)

lemma eval_last_step:
  "step env0 game_last = Inr (GameOver (game_last\<lparr>lives := 0, high := 7,
     snake := [(300, 220), (300, 200)]\<rparr>))"
  by (simp add: step_defs game_last_def game0_def env0_def config_defs)

text \<open>
  Claim C4. The high score is the maximum score of the session: game over records
  \<open>max(high, score)\<close> (lemma \<open>resolve_collision\<close> shows that the step does this), and a
  restart keeps it. The restart of \<open>main\<close> builds a new \<open>Game()\<close>, whose \<open>reset_all\<close> sets
  \<open>high\<close> to 0 (lemma \<open>Game_fresh\<close>). In \<open>game_last\<close> (score 7, last life) the step ends the
  game with high score 7; the player restarts, and the loop goes on with a game whose
  high score is 0.
\<close>

theorem high_score_reset:
  "map_sum id (\<lambda>out. (high (outcome_game out), score (outcome_game out))) (step env0 game_last) =
     Inr (7, 7) \<and>
   step_loop frame0 (1 / 12) 0 (1 / 10) game_last = Some (1, Inr (Rendered, 0, game0)) \<and>
   high game0 = 0"
proof -
  have a: "map_sum id (\<lambda>out. (high (outcome_game out), score (outcome_game out)))
      (step env0 game_last) = Inr (7, 7)"
    unfolding eval_last_step by (simp add: outcome_game_def game_last_def game0_def)
  have g: "Game init0 = Inr game0"
    by (simp add: Game_def eval_reset)
  have "step_loop frame0 (1 / 12) 1 0 game0 = Some (1, Inr (Rendered, 0, game0))"
    by (subst step_loop.simps) simp
  then have b: "step_loop frame0 (1 / 12) 0 (1 / 10) game_last = Some (1, Inr (Rendered, 0, game0))"
    by (subst step_loop.simps) (simp add: frame0_def eval_last_step g)
  have c: "high game0 = 0"
    by (simp add: game0_def)
  from a b c show ?thesis by blast
qed

section \<open>Consecutive commits\<close>

lemma eval_left_step:
  "step env0 game_left = Inr (Playing (game0\<lparr>snake := [(300, 200), (280, 200)], dir := (- 20, 0),
     next_dir := (- 20, 0), moving_obstacles := [\<lparr>rect = Rect 22 300 40 20, dx = 2\<rparr>]\<rparr>))"
  by (simp add: step_defs handle_input_def game_left_def game0_def env0_def config_defs)

lemma eval_turn:
  "handle_input (KEYDOWN K_DOWN) (game0\<lparr>snake := [(300, 200), (280, 200)], dir := (- 20, 0),
     next_dir := (- 20, 0), moving_obstacles := [\<lparr>rect = Rect 22 300 40 20, dx = 2\<rparr>]\<rparr>) =
   game_turned"
  by (simp add: handle_input_def game_turned_def game0_def GRID_def)

lemma eval_play: "play env0 9 game_turned = Some game_down"
  by (simp add: eval_nat_numeral step_defs game_turned_def game_down_def game0_def env0_def config_defs)

lemma eval_down_step: "step env0 game_down = Inr (Playing game_hit)"
  by (simp add: step_defs game_down_def game_hit_def game0_def env0_def config_defs)

lemma idle_body:
  assumes "idle g gm"
  shows "dir gm = dir g \<and> snake gm = snake g"
  using assms
proof induction
  case (same g)
  then show ?case by simp
next
  case (input g g' ev)
  then show ?case
    by (cases ev) (simp_all add: handle_input_def)
next
  case (query g g' now)
  with current_fps_body [of g' now] show ?case
    by (simp add: same_body_def)
qed

lemma idle_reachable:
  assumes "idle g gm" and "reachable g"
  shows "reachable gm"
  using assms
proof induction
  case (same g)
  then show ?case by simp
next
  case (input g g' ev)
  then show ?case by (simp add: reachable.input)
next
  case (query g g' now)
  then show ?case by (simp add: reachable.query)
qed

lemma play_reachable:
  "reachable g \<Longrightarrow> play e n g = Some g' \<Longrightarrow> reachable g'"
proof (induction n arbitrary: g)
  case 0
  then show ?case by simp
next
  case (Suc n)
  from Suc.prems(2) obtain g1 where s: "step e g = Inr (Playing g1)" and p: "play e n g1 = Some g'"
    by (auto split: sum.splits outcome.splits)
  from Suc.prems(1) s have "reachable g1"
    by (rule reachable.tick)
  from Suc.IH [OF this p] show ?case .
qed

lemma step_dir:
  assumes st: "step e g = Inr (Playing g2)"
  shows "(collision_in_step e g = Inr False \<and> dir g2 = next_dir g) \<or>
    (collision_in_step e g = Inr True \<and> dir g2 = (0, - GRID))"
proof -
  from step_Inr [OF st] obtain grew g4 g5 where
    me: "move_and_eat e g = Inr (grew, g4)" and tt: "trim_tail grew g4 = Inr g5"
    and rs: "resolve e g5 = Inr (Playing g2)"
    by blast
  from move_and_eat_Inr [OF me] obtain g1 where
    mv: "move_snake g = Inr g1" and b: "same_body g1 g4"
    by blast
  from move_snake_Inr [OF mv] b have "dir g4 = next_dir g"
    by (simp add: same_body_def)
  with trim_tail_Inr [OF tt] have d5: "dir g5 = next_dir g"
    by simp
  from me tt have cs: "collision_in_step e g = check_collisions g5"
    by (simp add: collision_in_step_def)
  from resolve_Inr_check [OF rs] obtain hit where h: "check_collisions g5 = Inr hit"
    by blast
  show ?thesis
  proof (cases hit)
    case True
    with h have c: "check_collisions g5 = Inr True"
      by simp
    from resolve_hit [OF c rs] have "same_body (reset_after_hit g5) g2"
      by (auto split: if_splits)
    then have "dir g2 = (0, - GRID)"
      by (simp add: same_body_def reset_after_hit_def Let_def)
    with c cs show ?thesis by simp
  next
    case False
    with h have c: "check_collisions g5 = Inr False"
      by simp
    from resolve_miss [OF c rs] have "same_body g5 g2"
      by auto
    with d5 have "dir g2 = next_dir g"
      by (simp add: same_body_def)
    with c cs show ?thesis by simp
  qed
qed

lemma reachable_game_down: "reachable game_down"
proof -
  have "Game init0 = Inr game0"
    by (simp add: Game_def eval_reset)
  then have "reachable game0"
    by (rule reachable.start)
  then have "reachable game_left"
    unfolding game_left_def by (rule reachable.input)
  from this eval_left_step have "reachable (game0\<lparr>snake := [(300, 200), (280, 200)],
      dir := (- 20, 0), next_dir := (- 20, 0),
      moving_obstacles := [\<lparr>rect = Rect 22 300 40 20, dx = 2\<rparr>]\<rparr>)"
    by (rule reachable.tick)
  then have "reachable (handle_input (KEYDOWN K_DOWN) (game0\<lparr>snake := [(300, 200), (280, 200)],
      dir := (- 20, 0), next_dir := (- 20, 0),
      moving_obstacles := [\<lparr>rect = Rect 22 300 40 20, dx = 2\<rparr>]\<rparr>))"
    by (rule reachable.input)
  then have "reachable game_turned"
    unfolding eval_turn .
  from this eval_play show ?thesis
    by (rule play_reachable)
qed

text \<open>
  Claim C5, as stated: the direction committed at a step is never the exact opposite of
  the direction committed at the step before. From a new game, Left, one step, Down and
  nine steps lead to \<open>game_down\<close>. Its next step commits down, runs into the bottom wall
  and costs a life: \<open>reset_after_hit\<close> sets the direction to up, and the step after that
  commits up, the exact opposite of down.
\<close>

theorem reversal_after_life_loss:
  "reachable game_down \<and>
   map_sum id dir (move_snake game_down) = Inr (0, 20) \<and>
   step env0 game_down = Inr (Playing game_hit) \<and>
   map_sum id dir (move_snake game_hit) = Inr (0, - 20) \<and>
   (0, - 20) = opposite (0, 20)"
proof -
  have a: "map_sum id dir (move_snake game_down) = Inr (0, 20)"
    by (simp add: move_snake_def snake_head_def game_down_def game0_def)
  have b: "map_sum id dir (move_snake game_hit) = Inr (0, - 20)"
    by (simp add: move_snake_def snake_head_def game_hit_def game0_def)
  have c: "(0, - 20) = opposite (0, 20)"
    by (simp add: opposite_def)
  from reachable_game_down a eval_down_step b c show ?thesis
    by blast
qed

text \<open>
  Claim C5, amended: the direction committed at a step is never the exact opposite of
  the direction committed at the step before, unless that step detected a collision:
  the life-loss reset then sets the direction to up, and the next committed direction
  is never the opposite of up. This holds for every reachable game, every step and
  everything that happens between two steps. A direction key changes the buffer exactly
  when the axis of the requested direction differs from the axis of the committed
  direction; otherwise the buffer is unchanged.
\<close>

theorem no_reversal_between_steps:
  assumes "reachable g"
  shows "(\<exists>g'. move_snake g = Inr g') \<and>
    (\<forall>g'. move_snake g = Inr g' \<longrightarrow> dir g' = next_dir g \<and> dir g' \<noteq> opposite (dir g)) \<and>
    (\<forall>k d. key_dir k = Some d \<longrightarrow>
       next_dir (handle_input (KEYDOWN k) g) =
         (if axis_of d \<noteq> axis_of (dir g) then d else next_dir g)) \<and>
    (\<forall>e g2 gm g3. step e g = Inr (Playing g2) \<and> idle g2 gm \<and> move_snake gm = Inr g3 \<longrightarrow>
       (collision_in_step e g = Inr False \<or> collision_in_step e g = Inr True) \<and>
       (collision_in_step e g = Inr False \<longrightarrow> dir g3 \<noteq> opposite (next_dir g)) \<and>
       (collision_in_step e g = Inr True \<longrightarrow> dir g2 = (0, - GRID) \<and> dir g3 \<noteq> opposite (0, - GRID)))"
proof -
  have 4: "(collision_in_step e g = Inr False \<or> collision_in_step e g = Inr True) \<and>
       (collision_in_step e g = Inr False \<longrightarrow> dir g3 \<noteq> opposite (next_dir g)) \<and>
       (collision_in_step e g = Inr True \<longrightarrow> dir g2 = (0, - GRID) \<and> dir g3 \<noteq> opposite (0, - GRID))"
    if st: "step e g = Inr (Playing g2)" and id: "idle g2 gm" and mv: "move_snake gm = Inr g3"
    for e g2 gm g3
  proof -
    from assms st have "reachable g2"
      by (rule reachable.tick)
    with id have "reachable gm"
      by (rule idle_reachable)
    from no_reversal [OF this] mv have "dir g3 \<noteq> opposite (dir gm)"
      by blast
    with idle_body [OF id] have n: "dir g3 \<noteq> opposite (dir g2)"
      by simp
    from step_dir [OF st] n show ?thesis
      by auto
  qed
  from no_reversal [OF assms] 4 show ?thesis
    by blast
qed

text \<open>
  The step from \<open>game_left\<close> commits left without a collision; Down is then buffered and
  the next step commits down, which is not the opposite of left. While the snake moves
  left, Right is refused.
\<close>

theorem no_reversal_between_steps_witness:
  "reachable game_left \<and>
   step env0 game_left = Inr (Playing (game0\<lparr>snake := [(300, 200), (280, 200)], dir := (- 20, 0),
     next_dir := (- 20, 0), moving_obstacles := [\<lparr>rect = Rect 22 300 40 20, dx = 2\<rparr>]\<rparr>)) \<and>
   idle (game0\<lparr>snake := [(300, 200), (280, 200)], dir := (- 20, 0),
     next_dir := (- 20, 0), moving_obstacles := [\<lparr>rect = Rect 22 300 40 20, dx = 2\<rparr>]\<rparr>) game_turned \<and>
   collision_in_step env0 game_left = Inr False \<and>
   next_dir game_left = (- 20, 0) \<and>
   map_sum id dir (move_snake game_turned) = Inr (0, 20) \<and>
   (0, 20) \<noteq> opposite (next_dir game_left) \<and>
   key_dir K_RIGHT = Some (20, 0) \<and>
   next_dir (handle_input (KEYDOWN K_RIGHT) game_turned) = (0, 20)"
proof -
  let ?s1 = "game0\<lparr>snake := [(300, 200), (280, 200)], dir := (- 20, 0),
     next_dir := (- 20, 0), moving_obstacles := [\<lparr>rect = Rect 22 300 40 20, dx = 2\<rparr>]\<rparr>"
  have "Game init0 = Inr game0"
    by (simp add: Game_def eval_reset)
  then have "reachable game0"
    by (rule reachable.start)
  then have r: "reachable game_left"
    unfolding game_left_def by (rule reachable.input)
  from r eval_left_step have r1: "reachable ?s1"
    by (rule reachable.tick)
  then have "reachable (handle_input (KEYDOWN K_DOWN) ?s1)"
    by (rule reachable.input)
  then have rt: "reachable game_turned"
    unfolding eval_turn .
  have "idle ?s1 (handle_input (KEYDOWN K_DOWN) ?s1)"
    by (rule idle.input) (rule idle.same)
  then have id: "idle ?s1 game_turned"
    unfolding eval_turn .
  have mv: "move_snake game_turned = Inr (game_turned\<lparr>dir := (0, 20),
      snake := [(300, 200), (280, 200), (280, 220)]\<rparr>)"
    by (simp add: move_snake_def snake_head_def game_turned_def game0_def)
  have c: "collision_in_step env0 game_left = Inr False"
    by (simp add: collision_in_step_def step_defs handle_input_def game_left_def game0_def
        env0_def config_defs)
  have n: "next_dir game_left = (- 20, 0)"
    by (simp add: game_left_def handle_input_def game0_def GRID_def)
  from no_reversal_between_steps [OF r] eval_left_step id mv c
  have "dir (game_turned\<lparr>dir := (0, 20), snake := [(300, 200), (280, 200), (280, 220)]\<rparr>) \<noteq>
      opposite (next_dir game_left)"
    by blast
  then have a: "(0, 20) \<noteq> opposite (next_dir game_left)"
    by simp
  from mv have b: "map_sum id dir (move_snake game_turned) = Inr (0, 20)"
    by simp
  have kr: "key_dir K_RIGHT = Some (20, 0)"
    by (simp add: key_dir_def GRID_def)
  have dt: "dir game_turned = (- 20, 0)" and nt: "next_dir game_turned = (0, 20)"
    by (simp_all add: game_turned_def)
  from no_reversal_between_steps [OF rt] kr
  have "next_dir (handle_input (KEYDOWN K_RIGHT) game_turned) =
      (if axis_of (20, 0) \<noteq> axis_of (dir game_turned) then (20, 0) else next_dir game_turned)"
    by blast
  with dt nt have k: "next_dir (handle_input (KEYDOWN K_RIGHT) game_turned) = (0, 20)"
    by (simp add: axis_of_def)
  from r eval_left_step id c n b a kr k show ?thesis
    by blast
qed

end
